theory Spec2Isabelle
  imports Main "HOL-Library.List_Lexorder"
begin

section \<open>Data model of \<open>lib/depgraph.py\<close>\<close>

text \<open>
  Names are Python strings. A version string such as \<open>0.9.1\<close> is kept as the list of
  its dotted numeric components, \<open>[0, 9, 1]\<close>.
\<close>

type_synonym name = string
type_synonym version = "nat list"

datatype cmp_op = LT | LE | EQ | NE | GE | GT

text \<open>
  Modelled from the spec: \<open>pkg_resources.Requirement\<close> (an external library, not part of
  this repository). A requirement is \<open>(name, version_spec, extras)\<close>; the version spec is
  a list of \<open>(op, version)\<close> clauses, conjoined. Requirement strings are kept parsed:
  \<open>pycrypto<=2.1\<close> is \<open>\<lparr>project_name = ''pycrypto'', specs = [(LE, [2, 1])], extras = []\<rparr>\<close>.
\<close>

record requirement =
  project_name :: string
  specs :: "(cmp_op \<times> version) list"
  extras :: "string list"

text \<open>
  The distribution objects handed in by the two collaborators, with the fields of the
  \<open>Distribution\<close> tuple of the demonstration (\<open>name version install_requires\<close>):
  \<open>install_requires\<close> maps an extra (\<open>''''\<close> for the default set) to requirements.
\<close>

record distribution =
  name :: string
  version :: version
  install_requires :: "(string \<times> requirement list) list"

datatype req_repr = Req requirement | Joined "requirement list"

datatype error =
    RequirementNotFound req_repr "name option"
  | AssertionError
  | AttributeError
  | KeyError
  | ValueError
  | NameError

subsection \<open>Versions and requirements\<close>

text \<open>
  Modelled from the spec: \<open>pkg_resources.parse_version\<close>, restricted to dotted numeric
  versions: trailing zero components do not count (\<open>1.4.0\<close> equals \<open>1.4\<close>) and keys are
  compared component by component (the lexicographic order on lists).
\<close>

definition parse_version :: "version \<Rightarrow> version" where
  "parse_version v = rev (dropWhile (\<lambda>n. n = 0) (rev v))"

definition version_key :: "distribution \<Rightarrow> version" where
  "version_key p = parse_version (version p)"

fun compare_op :: "cmp_op \<Rightarrow> version \<Rightarrow> version \<Rightarrow> bool" where
  "compare_op LT a b = (a < b)"
| "compare_op LE a b = (a \<le> b)"
| "compare_op EQ a b = (a = b)"
| "compare_op NE a b = (a \<noteq> b)"
| "compare_op GE a b = (b \<le> a)"
| "compare_op GT a b = (b < a)"

text \<open>
  Modelled from the spec: \<open>version in req\<close> (\<open>Requirement.__contains__\<close>): the version
  satisfies every clause of the requirement's version spec.
\<close>

definition req_contains :: "requirement \<Rightarrow> version \<Rightarrow> bool" where
  "req_contains req v =
     list_all (\<lambda>(opr, ver). compare_op opr (parse_version v) (parse_version ver)) (specs req)"

definition lower_char :: "char \<Rightarrow> char" where
  "lower_char c =
     (let n = (of_char c :: nat) in if 65 \<le> n \<and> n \<le> 90 then char_of (n + 32) else c)"

definition lower :: "string \<Rightarrow> string" where
  "lower s = map lower_char s"

definition req_name :: "requirement \<Rightarrow> name" where
  "req_name r = lower (project_name r)"

text \<open>
  Modelled from the spec: the collaborator's \<open>requirements(extras, exclude_default)\<close>:
  the default requirements (unless excluded) followed by those each given extra
  contributes. The demonstration's \<open>get_requirements\<close> has no \<open>exclude_default\<close>.
\<close>

definition extra_requires :: "distribution \<Rightarrow> string \<Rightarrow> requirement list" where
  "extra_requires p extra = (case map_of (install_requires p) extra of None \<Rightarrow> [] | Some rs \<Rightarrow> rs)"

definition get_requirements :: "distribution \<Rightarrow> string list \<Rightarrow> bool \<Rightarrow> requirement list" where
  "get_requirements p with_extras exclude_default =
     concat (map (extra_requires p)
       ((if exclude_default then [] else ['''']) @ remdups (filter (\<lambda>e. e \<noteq> '''') with_extras)))"

subsection \<open>Dictionaries in insertion order\<close>

fun dict_set :: "'k \<Rightarrow> 'v \<Rightarrow> ('k \<times> 'v) list \<Rightarrow> ('k \<times> 'v) list" where
  "dict_set k v [] = [(k, v)]"
| "dict_set k v ((k', v') # d) = (if k' = k then (k, v) # d else (k', v') # dict_set k v d)"

definition dict_get :: "'k \<Rightarrow> ('k \<times> 'v) list \<Rightarrow> 'v option" where
  "dict_get k d = map_of d k"

definition keys :: "('k \<times> 'v) list \<Rightarrow> 'k list" where
  "keys d = map fst d"

definition vals :: "('k \<times> 'v) list \<Rightarrow> 'v list" where
  "vals d = map snd d"

text \<open>\<open>d[k]\<close> on a \<open>defaultdict\<close>: a missing key is first inserted with the default.\<close>

definition default_get :: "'v \<Rightarrow> 'k \<Rightarrow> ('k \<times> 'v) list \<Rightarrow> 'v \<times> ('k \<times> 'v) list" where
  "default_get dflt k d =
     (case map_of d k of None \<Rightarrow> (dflt, d @ [(k, dflt)]) | Some v \<Rightarrow> (v, d))"

subsection \<open>The order sequence (class \<open>_Order\<close>)\<close>

record 'a Order =
  elements :: "'a list"
  elements_set :: "'a set"

definition Order_init :: "'a Order" where
  "Order_init = \<lparr>elements = [], elements_set = {}\<rparr>"

text \<open>\<open>list.remove(x)\<close>: drops the first occurrence, \<open>ValueError\<close> when there is none.\<close>

definition list_remove :: "'a \<Rightarrow> 'a list \<Rightarrow> error + 'a list" where
  "list_remove x xs = (if x \<in> set xs then Inr (remove1 x xs) else Inl ValueError)"

text \<open>
  \<open>push\<close>. On an element that is already in \<open>_elements_set\<close> the source runs
  \<open>self._elements.remove(element)\<close> and then \<open>self._elements_set.remove(set)\<close>: the
  argument is the builtin type \<open>set\<close>, which is never a member (members are names), so
  \<open>set.remove\<close> raises \<open>KeyError\<close> after the list has been changed.
\<close>

definition push :: "'a \<Rightarrow> 'a Order \<Rightarrow> (error + unit) \<times> 'a Order" where
  "push element ord =
     (if element \<in> elements_set ord then
        (case list_remove element (elements ord) of
           Inl e \<Rightarrow> (Inl e, ord)
         | Inr es \<Rightarrow> (Inl KeyError, ord\<lparr>elements := es\<rparr>))
      else (Inr (), ord\<lparr>elements := elements ord @ [element],
                        elements_set := insert element (elements_set ord)\<rparr>))"

text \<open>\<open>dict([(e, i) for (i, e) in enumerate(self._elements)])\<close>: a later pair wins.\<close>

definition indices :: "'a Order \<Rightarrow> 'a \<Rightarrow> nat option" where
  "indices ord = map_of (rev (zip (elements ord) [0..<length (elements ord)]))"

text \<open>
  \<open>lst.sort(key=..., reverse=...)\<close>: a stable sort; with \<open>reverse\<close> the list is reversed,
  sorted and reversed again, so equal keys keep their order.
\<close>

definition list_sort :: "('a \<Rightarrow> nat) \<Rightarrow> bool \<Rightarrow> 'a list \<Rightarrow> 'a list" where
  "list_sort key reverse lst =
     (if reverse then rev (sort_key key (rev lst)) else sort_key key lst)"

definition rank :: "'k Order \<Rightarrow> ('a \<Rightarrow> 'k) \<Rightarrow> 'a \<Rightarrow> nat" where
  "rank ord key e = (case indices ord (key e) of None \<Rightarrow> 99999 | Some i \<Rightarrow> i)"

definition rearrange_list :: "'k Order \<Rightarrow> 'a list \<Rightarrow> ('a \<Rightarrow> 'k) \<Rightarrow> bool \<Rightarrow> 'a list" where
  "rearrange_list ord lst key reverse = list_sort (rank ord key) reverse lst"

subsection \<open>The graph store (class \<open>MarkMixin\<close>)\<close>

text \<open>
  The field \<open>pkg1\<close> of a node is \<open>None\<close>, a distribution, or the object
  \<open>sentinal_delete\<close>.
\<close>

datatype pkg1_value = PNone | PDist distribution | Sentinal_delete

record Node =
  node_name :: name
  pkg :: "distribution option"
  pkg1 :: pkg1_value

text \<open>
  \<open>edges[n1][n2]\<close> lists the requirements under which \<open>n1\<close> is required by \<open>n2\<close>; the
  second key is the \<open>parent\<close> argument as passed, which may be \<open>None\<close>.
\<close>

type_synonym edge_map = "(name \<times> (name option \<times> requirement list) list) list"

record graph =
  nodes :: "(name \<times> Node) list"
  order_new :: "name Order"
  order_change :: "name Order"
  order_remove :: "name Order"
  edges :: edge_map

definition MarkMixin_init :: graph where
  "MarkMixin_init =
     \<lparr>nodes = [], order_new = Order_init, order_change = Order_init,
      order_remove = Order_init, edges = []\<rparr>"

text \<open>\<open>self.edges[n1][n2].append(r)\<close>, both levels being \<open>defaultdict\<close>s.\<close>

definition mark_new_requirement :: "name \<Rightarrow> name option \<Rightarrow> requirement \<Rightarrow> graph \<Rightarrow> graph" where
  "mark_new_requirement n1 n2 r s =
     (let (inner, es) = default_get [] n1 (edges s);
          (rl, inner') = default_get [] n2 inner
      in s\<lparr>edges := dict_set n1 (dict_set n2 (rl @ [r]) inner') es\<rparr>)"

text \<open>The truth value of \<open>required_by\<close>: \<open>None\<close> and the empty string are false.\<close>

definition truthy :: "name option \<Rightarrow> bool" where
  "truthy required_by = (case required_by of None \<Rightarrow> False | Some n \<Rightarrow> n \<noteq> [])"

definition mark_for_install ::
  "name \<Rightarrow> distribution \<Rightarrow> name option \<Rightarrow> requirement \<Rightarrow> graph \<Rightarrow> (error + Node) \<times> graph" where
  "mark_for_install nm p required_by requirement s =
     (if dict_get nm (nodes s) \<noteq> None then (Inl AssertionError, s)
      else
        let node = \<lparr>node_name = nm, pkg = None, pkg1 = PDist p\<rparr>;
            s1 = s\<lparr>nodes := dict_set nm node (nodes s)\<rparr>;
            s2 = (if truthy required_by then mark_new_requirement nm required_by requirement s1
                  else s1)
        in case push nm (order_new s2) of
             (Inl e, ord) \<Rightarrow> (Inl e, s2\<lparr>order_new := ord\<rparr>)
           | (Inr _, ord) \<Rightarrow> (Inr node, s2\<lparr>order_new := ord\<rparr>))"

definition mark_for_change ::
  "name \<Rightarrow> distribution \<Rightarrow> name option \<Rightarrow> requirement \<Rightarrow> graph \<Rightarrow> (error + Node) \<times> graph" where
  "mark_for_change nm p required_by requirement s =
     (case dict_get nm (nodes s) of
        None \<Rightarrow> (Inl AssertionError, s)
      | Some node0 \<Rightarrow>
         (case pkg node0 of
            None \<Rightarrow> (Inl AttributeError, s)
          | Some installed \<Rightarrow>
             let p' = (if version_key p = version_key installed then PNone else PDist p);
                 node = \<lparr>node_name = nm, pkg = pkg node0, pkg1 = p'\<rparr>;
                 s1 = s\<lparr>nodes := dict_set nm node (nodes s)\<rparr>;
                 s2 = (if truthy required_by
                       then mark_new_requirement nm required_by requirement s1 else s1)
             in case push nm (order_change s2) of
                  (Inl e, ord) \<Rightarrow> (Inl e, s2\<lparr>order_change := ord\<rparr>)
                | (Inr _, ord) \<Rightarrow> (Inr node, s2\<lparr>order_change := ord\<rparr>)))"

text \<open>
  \<open>_mark_for_removal\<close> returns the node if it was not marked for removal before, else
  \<open>None\<close>. Its argument comes from the keys of \<open>edges[name]\<close> on a cascade, so it may be
  \<open>None\<close>, which is no key of \<open>nodes\<close>.
\<close>

definition mark_for_removal :: "name option \<Rightarrow> graph \<Rightarrow> (error + Node option) \<times> graph" where
  "mark_for_removal nmo s =
     (case nmo of
        None \<Rightarrow> (Inl AssertionError, s)
      | Some nm \<Rightarrow>
         (case dict_get nm (nodes s) of
            None \<Rightarrow> (Inl AssertionError, s)
          | Some node0 \<Rightarrow>
             (case pkg1 node0 of
                Sentinal_delete \<Rightarrow> (Inr None, s)
              | PDist q \<Rightarrow> (Inl AssertionError, s)
              | PNone \<Rightarrow>
                 let node = \<lparr>node_name = nm, pkg = pkg node0, pkg1 = Sentinal_delete\<rparr>;
                     s1 = s\<lparr>nodes := dict_set nm node (nodes s)\<rparr>
                 in case push nm (order_remove s1) of
                      (Inl e, ord) \<Rightarrow> (Inl e, s1\<lparr>order_remove := ord\<rparr>)
                    | (Inr _, ord) \<Rightarrow> (Inr (Some node), s1\<lparr>order_remove := ord\<rparr>))))"

subsection \<open>The plan extractor \<open>get_marks\<close>\<close>

record marks =
  install :: "distribution list"
  remove :: "distribution list"
  change :: "(distribution \<times> distribution) list"

text \<open>
  The first loop of \<open>get_marks\<close>. A node marked for removal contributes its \<open>pkg\<close>; were
  that \<open>None\<close>, the sort key \<open>attrgetter('name')\<close> would raise on it, which the result
  \<open>None\<close> of \<open>removed\<close> stands for.
\<close>

definition installs :: "graph \<Rightarrow> distribution list" where
  "installs s =
     concat (map (\<lambda>node. case (pkg1 node, pkg node) of (PDist p, None) \<Rightarrow> [p] | _ \<Rightarrow> [])
       (vals (nodes s)))"

definition changes :: "graph \<Rightarrow> (distribution \<times> distribution) list" where
  "changes s =
     concat (map (\<lambda>node. case (pkg1 node, pkg node) of (PDist p, Some q) \<Rightarrow> [(q, p)] | _ \<Rightarrow> [])
       (vals (nodes s)))"

definition removed :: "graph \<Rightarrow> distribution option list" where
  "removed s =
     concat (map (\<lambda>node. case pkg1 node of Sentinal_delete \<Rightarrow> [pkg node] | _ \<Rightarrow> [])
       (vals (nodes s)))"

definition get_marks :: "graph \<Rightarrow> error + marks" where
  "get_marks s =
     (if None \<in> set (removed s) then Inl AttributeError
      else Inr \<lparr>install = rearrange_list (order_new s) (installs s) name True,
                remove = rearrange_list (order_remove s) (map the (removed s)) name False,
                change = rearrange_list (order_change s) (changes s) (\<lambda>(p1, p2). name p1) True\<rparr>)"

subsection \<open>The resolution engine (class \<open>DepGraph\<close>)\<close>

definition has_package :: "name \<Rightarrow> graph \<Rightarrow> bool" where
  "has_package nm s = (dict_get nm (nodes s) \<noteq> None)"

text \<open>
  \<open>node.pkg1 or node.pkg\<close> followed by the \<open>assert\<close> and the first attribute access on
  the result: the assertion fails when both fields are \<open>None\<close>; the object
  \<open>sentinal_delete\<close> is true and passes it, but has no attribute to read.
\<close>

definition pkg1_or_pkg :: "Node \<Rightarrow> error + distribution" where
  "pkg1_or_pkg node =
     (case pkg1 node of
        PDist q \<Rightarrow> Inr q
      | Sentinal_delete \<Rightarrow> Inl AttributeError
      | PNone \<Rightarrow> (case pkg node of None \<Rightarrow> Inl AssertionError | Some q \<Rightarrow> Inr q))"

text \<open>Reading \<open>self.edges[name]\<close> inserts a missing \<open>name\<close> with an empty dictionary.\<close>

definition touch_edges :: "name \<Rightarrow> graph \<Rightarrow> graph" where
  "touch_edges nm s = s\<lparr>edges := snd (default_get [] nm (edges s))\<rparr>"

text \<open>\<open>sum(self.edges[name].values(), [])\<close>: the requirements recorded for a name.\<close>

definition recorded :: "graph \<Rightarrow> name \<Rightarrow> requirement list" where
  "recorded s nm = concat (vals (fst (default_get [] nm (edges s))))"

text \<open>
  The combined constraint set: \<open>[r]\<close>, extended by the recorded requirements when
  \<open>name\<close> has a node.
\<close>

definition to_satisfy :: "graph \<Rightarrow> requirement \<Rightarrow> requirement list" where
  "to_satisfy s r =
     (case dict_get (req_name r) (nodes s) of
        None \<Rightarrow> [r]
      | Some node \<Rightarrow> r # recorded s (req_name r))"

definition satisfies_all :: "requirement list \<Rightarrow> distribution \<Rightarrow> bool" where
  "satisfies_all to_sat p = list_all (\<lambda>req. req_contains req (version p)) to_sat"

definition satisfying_packages :: "requirement list \<Rightarrow> distribution list \<Rightarrow> distribution list" where
  "satisfying_packages to_sat releases = filter (satisfies_all to_sat) releases"

type_synonym catalog = "name \<Rightarrow> error + distribution list"

text \<open>
  \<open>add_requirement\<close> up to its transitive step (the source's lines 262 to 330): the
  result is the pair of \<open>ret\<close> and \<open>node\<close> there. The warning about requirements that
  differ across versions only logs and is left out.
\<close>

definition add_requirement_head ::
  "catalog \<Rightarrow> name option \<Rightarrow> requirement \<Rightarrow> graph \<Rightarrow> (error + bool \<times> Node) \<times> graph" where
  "add_requirement_head get_available_distributions parent r s =
     (let nm = req_name r;
          node = dict_get nm (nodes s);
          to_sat = to_satisfy s r;
          s0 = (if node = None then s else touch_edges nm s)
      in case get_available_distributions nm of
           Inl e \<Rightarrow> (Inl e, s0)
         | Inr releases \<Rightarrow>
            if releases = [] then (Inl (RequirementNotFound (Req r) parent), s0)
            else
              (case satisfying_packages to_sat releases of
                 [] \<Rightarrow> (Inl (RequirementNotFound (Joined to_sat) parent), s0)
               | p # rest \<Rightarrow>
                  (case node of
                     None \<Rightarrow>
                      (case mark_for_install nm p parent r s0 of
                         (Inl e, s1) \<Rightarrow> (Inl e, s1)
                       | (Inr node', s1) \<Rightarrow> (Inr (True, node'), s1))
                   | Some node0 \<Rightarrow>
                      (case pkg1_or_pkg node0 of
                         Inl e \<Rightarrow> (Inl e, s0)
                       | Inr node_pkg \<Rightarrow>
                          let change =
                            (if version_key node_pkg = version_key p then False
                             else if version_key p < version_key node_pkg
                               then \<not> satisfies_all to_sat node_pkg
                             else True)
                          in if change then
                               (case mark_for_change nm p parent r s0 of
                                  (Inl e, s1) \<Rightarrow> (Inl e, s1)
                                | (Inr node', s1) \<Rightarrow> (Inr (pkg1 node' \<noteq> PNone, node'), s1))
                             else (Inr (False, node0), mark_new_requirement nm parent r s0)))))"

text \<open>
  The loop \<open>for r in ...: ret = any([ret, self.add_requirement(r, ...)])\<close>; an exception
  of a call ends it, and \<open>None\<close> is a call that does not return.
\<close>

fun for_requirements ::
  "('a \<Rightarrow> 's \<Rightarrow> ((error + bool) \<times> 's) option) \<Rightarrow> 'a list \<Rightarrow> bool \<Rightarrow> 's
     \<Rightarrow> ((error + bool) \<times> 's) option" where
  "for_requirements f [] ret s = Some (Inr ret, s)"
| "for_requirements f (r # rs) ret s =
     (case f r s of
        None \<Rightarrow> None
      | Some (Inl e, s1) \<Rightarrow> Some (Inl e, s1)
      | Some (Inr b, s1) \<Rightarrow> for_requirements f rs (ret \<or> b) s1)"

text \<open>
  \<open>add_requirement\<close>. The first argument bounds the depth of the recursion, which the
  source does not bound: \<open>None\<close> is a call that needs a deeper recursion.
\<close>

primrec add_requirement ::
  "nat \<Rightarrow> catalog \<Rightarrow> bool \<Rightarrow> name option \<Rightarrow> requirement \<Rightarrow> graph
     \<Rightarrow> ((error + bool) \<times> graph) option" where
  "add_requirement 0 get_available_distributions nodeps parent r s = None"
| "add_requirement (Suc k) get_available_distributions nodeps parent r s =
     (case add_requirement_head get_available_distributions parent r s of
        (Inl e, s1) \<Rightarrow> Some (Inl e, s1)
      | (Inr (ret, node), s1) \<Rightarrow>
         if nodeps then Some (Inr ret, s1)
         else
           (case pkg1_or_pkg node of
              Inl e \<Rightarrow> Some (Inl e, s1)
            | Inr p \<Rightarrow>
               for_requirements
                 (add_requirement k get_available_distributions nodeps (Some (node_name node)))
                 (get_requirements p (extras r) False) ret s1))"

fun for_names ::
  "('a \<Rightarrow> 's \<Rightarrow> ((error + unit) \<times> 's) option) \<Rightarrow> 'a list \<Rightarrow> 's
     \<Rightarrow> ((error + unit) \<times> 's) option" where
  "for_names f [] s = Some (Inr (), s)"
| "for_names f (n # ns) s =
     (case f n s of
        None \<Rightarrow> None
      | Some (Inl e, s1) \<Rightarrow> Some (Inl e, s1)
      | Some (Inr u, s1) \<Rightarrow> for_names f ns s1)"

primrec remove_package ::
  "nat \<Rightarrow> name option \<Rightarrow> bool \<Rightarrow> graph \<Rightarrow> ((error + unit) \<times> graph) option" where
  "remove_package 0 nmo nodeps s = None"
| "remove_package (Suc k) nmo nodeps s =
     (case mark_for_removal nmo s of
        (Inl e, s1) \<Rightarrow> Some (Inl e, s1)
      | (Inr node, s1) \<Rightarrow>
         (case (node, nmo) of
            (Some node', Some nm) \<Rightarrow>
              if nodeps then Some (Inr (), s1)
              else
                let (inner, es) = default_get [] nm (edges s1)
                in for_names (\<lambda>name1. remove_package k name1 False) (keys inner)
                     (s1\<lparr>edges := es\<rparr>)
          | _ \<Rightarrow> Some (Inr (), s1)))"

subsection \<open>The installed-state loader \<open>_load_install_db\<close>\<close>

definition load_pass1 :: "distribution list \<Rightarrow> graph \<Rightarrow> graph" where
  "load_pass1 ipackages s =
     fold (\<lambda>ipkg s. s\<lparr>nodes :=
              dict_set (name ipkg) \<lparr>node_name = name ipkg, pkg = Some ipkg, pkg1 = PNone\<rparr>
                (nodes s)\<rparr>)
       ipackages s"

text \<open>
  \<open>set.add\<close>, the set being kept in the order of first insertion. Python iterates a set
  in an order of its own; the order chosen here only decides in which order the edges of
  two or more extras are recorded.
\<close>

definition set_add :: "'a \<Rightarrow> 'a list \<Rightarrow> 'a list" where
  "set_add x xs = (if x \<in> set xs then xs else xs @ [x])"

definition load_requirement ::
  "name \<Rightarrow> requirement \<Rightarrow> graph \<times> (name \<times> string \<times> name) list
     \<Rightarrow> graph \<times> (name \<times> string \<times> name) list" where
  "load_requirement nm r acc =
     (let (s, extra_requirements) = acc; rname = req_name r
      in if has_package rname s
         then (mark_new_requirement rname (Some nm) r s,
               fold (\<lambda>e. set_add (rname, e, nm)) (extras r) extra_requirements)
         else (s, extra_requirements))"

text \<open>Pass 2 runs over the nodes of pass 1, each of which has its \<open>pkg\<close>.\<close>

definition load_pass2 :: "graph \<Rightarrow> graph \<times> (name \<times> string \<times> name) list" where
  "load_pass2 s =
     fold (\<lambda>(nm, node) acc.
             case pkg node of
               None \<Rightarrow> acc
             | Some ipkg \<Rightarrow> fold (load_requirement nm) (get_requirements ipkg [] False) acc)
       (nodes s) (s, [])"

definition load_extra :: "name \<times> string \<times> name \<Rightarrow> graph \<Rightarrow> graph" where
  "load_extra t s =
     (let (n1, e, n2) = t
      in case dict_get n1 (nodes s) of
           None \<Rightarrow> s
         | Some node \<Rightarrow>
            (case pkg node of
               None \<Rightarrow> s
             | Some ipkg \<Rightarrow>
                fold (\<lambda>r. mark_new_requirement (req_name r) (Some n2) r)
                  (get_requirements ipkg [e] True) s))"

definition load_install_db :: "distribution list \<Rightarrow> graph \<Rightarrow> graph" where
  "load_install_db ipackages s =
     (let (s2, extra_requirements) = load_pass2 (load_pass1 ipackages s)
      in fold load_extra extra_requirements s2)"

definition DepGraph_init :: "distribution list \<Rightarrow> graph" where
  "DepGraph_init get_installed_distributions =
     load_install_db get_installed_distributions MarkMixin_init"

subsection \<open>The demonstration catalog (\<open>ExampleDepGraph\<close>)\<close>

definition Distribution :: "string \<Rightarrow> version \<Rightarrow> (string \<times> requirement list) list \<Rightarrow> distribution" where
  "Distribution n v reqs = \<lparr>name = n, version = v, install_requires = reqs\<rparr>"

definition parse :: "string \<Rightarrow> (cmp_op \<times> version) list \<Rightarrow> requirement" where
  "parse n sp = \<lparr>project_name = n, specs = sp, extras = []\<rparr>"

definition fabric_091 :: distribution where
  "fabric_091 = Distribution ''fabric'' [0, 9, 1] [('''', [parse ''pycrypto'' []])]"

definition fabric_092 :: distribution where
  "fabric_092 = Distribution ''fabric'' [0, 9, 2]
     [('''', [parse ''pycrypto'' [(LE, [2, 1])], parse ''paramiko'' []])]"

definition pycrypto_21 :: distribution where
  "pycrypto_21 = Distribution ''pycrypto'' [2, 1] [('''', [])]"

definition pycrypto_23 :: distribution where
  "pycrypto_23 = Distribution ''pycrypto'' [2, 3] [('''', [])]"

definition virtualenv_140 :: distribution where
  "virtualenv_140 = Distribution ''virtualenv'' [1, 4, 0] [('''', [])]"

definition paramiko_09 :: distribution where
  "paramiko_09 = Distribution ''paramiko'' [0, 9] [('''', [parse ''pycrypto'' []])]"

definition example_installed :: "distribution list" where
  "example_installed = [fabric_091, pycrypto_21, virtualenv_140]"

text \<open>
  For a name outside its table the demonstration runs \<open>raise NotImpementedError()\<close>, a
  name that is not defined: a \<open>NameError\<close>.
\<close>

definition example_available :: catalog where
  "example_available nm =
     (if nm = ''fabric'' then Inr [fabric_092, fabric_091]
      else if nm = ''paramiko'' then Inr [paramiko_09]
      else if nm = ''pycrypto'' then Inr [pycrypto_23, pycrypto_21]
      else Inl NameError)"

definition example_graph :: graph where
  "example_graph = DepGraph_init example_installed"

subsection \<open>States of the end-to-end scenarios\<close>

text \<open>The graph after \<open>add_requirement("pycrypto>=2.3")\<close> on the installed state.\<close>

definition graph_pycrypto_23 :: graph where
  "graph_pycrypto_23 =
     \<lparr>nodes =
        [(''fabric'', \<lparr>node_name = ''fabric'', pkg = Some fabric_091, pkg1 = PNone\<rparr>),
         (''pycrypto'',
          \<lparr>node_name = ''pycrypto'', pkg = Some pycrypto_21, pkg1 = PDist pycrypto_23\<rparr>),
         (''virtualenv'',
          \<lparr>node_name = ''virtualenv'', pkg = Some virtualenv_140, pkg1 = PNone\<rparr>)],
      order_new = Order_init,
      order_change = \<lparr>elements = [''pycrypto''], elements_set = {''pycrypto''}\<rparr>,
      order_remove = Order_init,
      edges = [(''pycrypto'', [(Some ''fabric'', [parse ''pycrypto'' []])])]\<rparr>"

text \<open>The graph after \<open>add_requirement("fabric")\<close> on the installed state.\<close>

definition graph_fabric :: graph where
  "graph_fabric =
     \<lparr>nodes =
        [(''fabric'', \<lparr>node_name = ''fabric'', pkg = Some fabric_091, pkg1 = PDist fabric_092\<rparr>),
         (''pycrypto'', \<lparr>node_name = ''pycrypto'', pkg = Some pycrypto_21, pkg1 = PNone\<rparr>),
         (''virtualenv'',
          \<lparr>node_name = ''virtualenv'', pkg = Some virtualenv_140, pkg1 = PNone\<rparr>),
         (''paramiko'', \<lparr>node_name = ''paramiko'', pkg = None, pkg1 = PDist paramiko_09\<rparr>)],
      order_new = \<lparr>elements = [''paramiko''], elements_set = {''paramiko''}\<rparr>,
      order_change = \<lparr>elements = [''fabric''], elements_set = {''fabric''}\<rparr>,
      order_remove = Order_init,
      edges =
        [(''pycrypto'',
          [(Some ''fabric'', [parse ''pycrypto'' [], parse ''pycrypto'' [(LE, [2, 1])]]),
           (Some ''paramiko'', [parse ''pycrypto'' []])]),
         (''fabric'', []),
         (''paramiko'', [(Some ''fabric'', [parse ''paramiko'' []])])]\<rparr>"

text \<open>The graph after \<open>add_requirement("fabric")\<close> a second time, on the graph above.\<close>

definition graph_fabric_twice :: graph where
  "graph_fabric_twice =
     \<lparr>nodes =
        [(''fabric'', \<lparr>node_name = ''fabric'', pkg = Some fabric_091, pkg1 = PDist fabric_092\<rparr>),
         (''pycrypto'', \<lparr>node_name = ''pycrypto'', pkg = Some pycrypto_21, pkg1 = PNone\<rparr>),
         (''virtualenv'',
          \<lparr>node_name = ''virtualenv'', pkg = Some virtualenv_140, pkg1 = PNone\<rparr>),
         (''paramiko'', \<lparr>node_name = ''paramiko'', pkg = None, pkg1 = PDist paramiko_09\<rparr>)],
      order_new = \<lparr>elements = [''paramiko''], elements_set = {''paramiko''}\<rparr>,
      order_change = \<lparr>elements = [''fabric''], elements_set = {''fabric''}\<rparr>,
      order_remove = Order_init,
      edges =
        [(''pycrypto'',
          [(Some ''fabric'',
            [parse ''pycrypto'' [], parse ''pycrypto'' [(LE, [2, 1])],
             parse ''pycrypto'' [(LE, [2, 1])]]),
           (Some ''paramiko'', [parse ''pycrypto'' [], parse ''pycrypto'' []])]),
         (''fabric'', [(None, [parse ''fabric'' []])]),
         (''paramiko'', [(Some ''fabric'', [parse ''paramiko'' [], parse ''paramiko'' []])])]\<rparr>"

text \<open>The graph after \<open>remove_package("pycrypto")\<close> on the installed state.\<close>

definition graph_removed :: graph where
  "graph_removed =
     \<lparr>nodes =
        [(''fabric'', \<lparr>node_name = ''fabric'', pkg = Some fabric_091, pkg1 = Sentinal_delete\<rparr>),
         (''pycrypto'',
          \<lparr>node_name = ''pycrypto'', pkg = Some pycrypto_21, pkg1 = Sentinal_delete\<rparr>),
         (''virtualenv'',
          \<lparr>node_name = ''virtualenv'', pkg = Some virtualenv_140, pkg1 = PNone\<rparr>)],
      order_new = Order_init,
      order_change = Order_init,
      order_remove =
        \<lparr>elements = [''pycrypto'', ''fabric''], elements_set = {''fabric'', ''pycrypto''}\<rparr>,
      edges =
        [(''pycrypto'', [(Some ''fabric'', [parse ''pycrypto'' []])]), (''fabric'', [])]\<rparr>"

text \<open>The graph after \<open>add_requirement("pycrypto==2.1")\<close> on the installed state.\<close>

definition graph_pycrypto_eq :: graph where
  "graph_pycrypto_eq =
     \<lparr>nodes =
        [(''fabric'', \<lparr>node_name = ''fabric'', pkg = Some fabric_091, pkg1 = PNone\<rparr>),
         (''pycrypto'', \<lparr>node_name = ''pycrypto'', pkg = Some pycrypto_21, pkg1 = PNone\<rparr>),
         (''virtualenv'',
          \<lparr>node_name = ''virtualenv'', pkg = Some virtualenv_140, pkg1 = PNone\<rparr>)],
      order_new = Order_init,
      order_change = Order_init,
      order_remove = Order_init,
      edges =
        [(''pycrypto'',
          [(Some ''fabric'', [parse ''pycrypto'' []]),
           (None, [parse ''pycrypto'' [(EQ, [2, 1])]])])]\<rparr>"

text \<open>
  An installed state with an extra: \<open>app-1.0\<close> requires \<open>lib[fast]\<close>, the extra \<open>fast\<close>
  of \<open>lib-1.0\<close> requires \<open>dep>=2\<close>, and \<open>dep\<close> is not installed; the repository has
  \<open>dep-1.0\<close> only and returns the empty list for any other name.
\<close>

definition app_10 :: distribution where
  "app_10 = Distribution ''app'' [1, 0]
     [('''', [\<lparr>project_name = ''lib'', specs = [], extras = [''fast'']\<rparr>])]"

definition lib_10 :: distribution where
  "lib_10 = Distribution ''lib'' [1, 0]
     [('''', []), (''fast'', [parse ''dep'' [(GE, [2])]])]"

definition dep_10 :: distribution where
  "dep_10 = Distribution ''dep'' [1, 0] [('''', [])]"

definition extras_installed :: "distribution list" where
  "extras_installed = [app_10, lib_10]"

definition extras_available :: catalog where
  "extras_available nm = (if nm = ''dep'' then Inr [dep_10] else Inr [])"

definition extras_graph :: graph where
  "extras_graph = DepGraph_init extras_installed"

text \<open>The graph after \<open>add_requirement("dep<2")\<close> on that state.\<close>

definition graph_dep :: graph where
  "graph_dep =
     \<lparr>nodes =
        [(''app'', \<lparr>node_name = ''app'', pkg = Some app_10, pkg1 = PNone\<rparr>),
         (''lib'', \<lparr>node_name = ''lib'', pkg = Some lib_10, pkg1 = PNone\<rparr>),
         (''dep'', \<lparr>node_name = ''dep'', pkg = None, pkg1 = PDist dep_10\<rparr>)],
      order_new = \<lparr>elements = [''dep''], elements_set = {''dep''}\<rparr>,
      order_change = Order_init,
      order_remove = Order_init,
      edges =
        [(''lib'',
          [(Some ''app'', [\<lparr>project_name = ''lib'', specs = [], extras = [''fast'']\<rparr>])]),
         (''dep'', [(Some ''app'', [parse ''dep'' [(GE, [2])]])])]\<rparr>"

text \<open>
  The graph after \<open>add_requirement("pycrypto")\<close> when nothing is installed: a node that is
  marked for install.
\<close>

definition graph_new_pycrypto :: graph where
  "graph_new_pycrypto =
     \<lparr>nodes = [(''pycrypto'', \<lparr>node_name = ''pycrypto'', pkg = None, pkg1 = PDist pycrypto_23\<rparr>)],
      order_new = \<lparr>elements = [''pycrypto''], elements_set = {''pycrypto''}\<rparr>,
      order_change = Order_init,
      order_remove = Order_init,
      edges = []\<rparr>"

text \<open>
  A repository whose releases differ in the requirements of an extra: \<open>tool-2.0\<close> is
  installed; with the extra \<open>net\<close> it requires \<open>http\<close>, while \<open>tool-1.0\<close> with that extra
  requires \<open>urls\<close>; \<open>http-1.0\<close> requires \<open>tool<2\<close>.
\<close>

definition tool_20 :: distribution where
  "tool_20 = Distribution ''tool'' [2, 0] [('''', []), (''net'', [parse ''http'' []])]"

definition tool_10 :: distribution where
  "tool_10 = Distribution ''tool'' [1, 0] [('''', []), (''net'', [parse ''urls'' []])]"

definition http_10 :: distribution where
  "http_10 = Distribution ''http'' [1, 0] [('''', [parse ''tool'' [(LT, [2])]])]"

definition urls_10 :: distribution where
  "urls_10 = Distribution ''urls'' [1, 0] [('''', [])]"

definition tool_net :: requirement where
  "tool_net = \<lparr>project_name = ''tool'', specs = [], extras = [''net'']\<rparr>"

definition tool_installed :: "distribution list" where
  "tool_installed = [tool_20]"

definition tool_available :: catalog where
  "tool_available nm =
     (if nm = ''tool'' then Inr [tool_20, tool_10]
      else if nm = ''http'' then Inr [http_10]
      else if nm = ''urls'' then Inr [urls_10]
      else Inr [])"

definition tool_graph :: graph where
  "tool_graph = DepGraph_init tool_installed"

text \<open>The graph after \<open>add_requirement("tool[net]")\<close> on that installed state.\<close>

definition graph_tool_once :: graph where
  "graph_tool_once =
     \<lparr>nodes =
        [(''tool'', \<lparr>node_name = ''tool'', pkg = Some tool_20, pkg1 = PDist tool_10\<rparr>),
         (''http'', \<lparr>node_name = ''http'', pkg = None, pkg1 = PDist http_10\<rparr>)],
      order_new = \<lparr>elements = [''http''], elements_set = {''http''}\<rparr>,
      order_change = \<lparr>elements = [''tool''], elements_set = {''tool''}\<rparr>,
      order_remove = Order_init,
      edges =
        [(''tool'', [(None, [tool_net]), (Some ''http'', [parse ''tool'' [(LT, [2])]])]),
         (''http'', [(Some ''tool'', [parse ''http'' []])])]\<rparr>"

subsection \<open>Properties of the graph named by the specification\<close>

text \<open>
  For every recorded edge \<open>edges[a][b]\<close>, both \<open>a\<close> and \<open>b\<close> are keys of \<open>nodes\<close>.
\<close>

definition edges_in_nodes :: "graph \<Rightarrow> bool" where
  "edges_in_nodes s =
     list_all (\<lambda>(a, inner).
        list_all (\<lambda>(b, rl).
           has_package a s \<and> (case b of None \<Rightarrow> False | Some n \<Rightarrow> has_package n s)) inner)
       (edges s)"

text \<open>No requirement is recorded for a name that has no node.\<close>

definition edges_known :: "graph \<Rightarrow> bool" where
  "edges_known s = list_all (\<lambda>(a, inner). has_package a s \<or> concat (vals inner) = []) (edges s)"

text \<open>The \<open>RequirementNotFound\<close> a call ends with, if it ends with one.\<close>

definition not_found_raised :: "((error + 'a) \<times> graph) option \<Rightarrow> error option" where
  "not_found_raised res =
     (case res of
        Some (Inl (RequirementNotFound x par), s) \<Rightarrow> Some (RequirementNotFound x par)
      | _ \<Rightarrow> None)"

text \<open>
  The specification's steps 3 and 4 of \<open>add_requirement\<close>, for the list of releases of
  the name: the error to raise, if any.
\<close>

definition not_found ::
  "distribution list \<Rightarrow> name option \<Rightarrow> requirement \<Rightarrow> graph \<Rightarrow> error option" where
  "not_found releases parent r s =
     (if releases = [] then Some (RequirementNotFound (Req r) parent)
      else if satisfying_packages (to_satisfy s r) releases = []
        then Some (RequirementNotFound (Joined (to_satisfy s r)) parent)
      else None)"

text \<open>Releases listed in descending order of their version keys.\<close>

definition descending :: "distribution list \<Rightarrow> bool" where
  "descending releases = sorted_wrt (\<lambda>p q. version_key q \<le> version_key p) releases"

text \<open>The distribution a node stands for satisfies the given requirements.\<close>

definition effective_satisfies :: "graph \<Rightarrow> name \<Rightarrow> requirement list \<Rightarrow> bool" where
  "effective_satisfies s nm reqs =
     (case dict_get nm (nodes s) of
        None \<Rightarrow> False
      | Some node \<Rightarrow> (case pkg1_or_pkg node of Inl e \<Rightarrow> False | Inr p \<Rightarrow> satisfies_all reqs p))"

text \<open>
  The invariant behind the effective distribution of a name: the node's distribution
  satisfies the given requirements and those recorded for the name; and either the given
  requirements are among the recorded ones, or the node can not be marked for change
  again, because it has no installed package or its name is already in the change order
  (then \<open>_mark_for_change\<close> raises).
\<close>

definition settled :: "graph \<Rightarrow> name \<Rightarrow> requirement list \<Rightarrow> bool" where
  "settled s nm reqs =
     (case dict_get nm (nodes s) of
        None \<Rightarrow> False
      | Some node \<Rightarrow>
         (case pkg1_or_pkg node of
            Inl e \<Rightarrow> False
          | Inr p \<Rightarrow>
             satisfies_all reqs p \<and> satisfies_all (recorded s nm) p \<and>
             (set reqs \<subseteq> set (recorded s nm) \<or> pkg node = None \<or>
              nm \<in> elements_set (order_change s))))"

subsection \<open>What a call of \<open>add_requirement\<close> follows, and a call repeated\<close>

text \<open>
  The loop of the transitive step once more, collecting what \<open>g\<close> yields for each call:
  as in \<open>for_requirements\<close>, each call runs on the state the call before it left, and
  the loop ends with the first call that does not return normally.
\<close>

fun followed_all ::
  "('a \<Rightarrow> 's \<Rightarrow> ((error + bool) \<times> 's) option) \<Rightarrow> ('a \<Rightarrow> 's \<Rightarrow> 'b list) \<Rightarrow> 'a list \<Rightarrow> 's
     \<Rightarrow> 'b list" where
  "followed_all f g [] s = []"
| "followed_all f g (r # rs) s =
     g r s @ (case f r s of Some (Inr b, s1) \<Rightarrow> followed_all f g rs s1 | _ \<Rightarrow> [])"

text \<open>
  The nodes whose requirements a call of \<open>add_requirement\<close> follows, in the order of the
  calls: for each call that reaches its transitive step, the name of its requirement and
  the \<open>node\<close> whose \<open>pkg1 or pkg\<close> supplies the requirements followed. With \<open>nodeps\<close>
  nothing is followed.
\<close>

primrec followed ::
  "nat \<Rightarrow> catalog \<Rightarrow> bool \<Rightarrow> name option \<Rightarrow> requirement \<Rightarrow> graph \<Rightarrow> (name \<times> Node) list" where
  "followed 0 get_available_distributions nodeps parent r s = []"
| "followed (Suc k) get_available_distributions nodeps parent r s =
     (case add_requirement_head get_available_distributions parent r s of
        (Inl e, s1) \<Rightarrow> []
      | (Inr (ret, node), s1) \<Rightarrow>
         if nodeps then []
         else
           (case pkg1_or_pkg node of
              Inl e \<Rightarrow> []
            | Inr p \<Rightarrow>
               (req_name r, node) #
               followed_all
                 (add_requirement k get_available_distributions nodeps (Some (node_name node)))
                 (followed k get_available_distributions nodeps (Some (node_name node)))
                 (get_requirements p (extras r) False) s1))"

text \<open>
  A followed node is still effective in a state: the node of its name stands there for
  the distribution whose requirements were followed.
\<close>

definition still_effective :: "graph \<Rightarrow> name \<times> Node \<Rightarrow> bool" where
  "still_effective s x =
     (case dict_get (fst x) (nodes s) of
        None \<Rightarrow> False
      | Some node \<Rightarrow> pkg1_or_pkg node = pkg1_or_pkg (snd x))"

text \<open>
  The first phase of \<open>add_requirement(r)\<close> has nothing to mark: the name of \<open>r\<close> has a
  node, and the first release that satisfies \<open>r\<close> and the recorded requirements has the
  version of the distribution the node stands for, or it is an older one while \<open>r\<close> is
  recorded and that distribution satisfies them all.
\<close>

definition keeps :: "catalog \<Rightarrow> graph \<Rightarrow> requirement \<Rightarrow> bool" where
  "keeps A s r =
     (case dict_get (req_name r) (nodes s) of
        None \<Rightarrow> False
      | Some node \<Rightarrow>
         (case pkg1_or_pkg node of
            Inl e \<Rightarrow> False
          | Inr q \<Rightarrow>
             (case A (req_name r) of
                Inl e \<Rightarrow> False
              | Inr releases \<Rightarrow>
                 (case satisfying_packages (r # recorded s (req_name r)) releases of
                    [] \<Rightarrow> False
                  | p # rest \<Rightarrow>
                     version_key q = version_key p \<or>
                     (version_key p < version_key q \<and>
                      satisfies_all (r # recorded s (req_name r)) q \<and>
                      r \<in> set (recorded s (req_name r)))))))"

text \<open>
  The node of the name of \<open>r\<close> stands for the distribution \<open>q\<close> and the first phase of
  \<open>add_requirement(r)\<close> has nothing to mark; or the node has been marked for change
  since it stood for \<open>q\<close>.
\<close>

definition stays :: "catalog \<Rightarrow> graph \<Rightarrow> requirement \<Rightarrow> distribution \<Rightarrow> bool" where
  "stays A s r q =
     (case dict_get (req_name r) (nodes s) of
        None \<Rightarrow> False
      | Some node \<Rightarrow>
         (pkg1_or_pkg node = Inr q \<and> keeps A s r) \<or>
         (req_name r \<in> elements_set (order_change s) \<and> pkg1_or_pkg node \<noteq> Inr q))"

text \<open>
  A state \<open>u\<close> of a call of \<open>add_requirement\<close> that started in \<open>F\<close> and has marked
  nothing: the nodes and the orders are those of \<open>F\<close>, and the requirements recorded for
  a name are those recorded in \<open>F\<close> and requirements for which the first phase has
  nothing to mark in \<open>F\<close>.
\<close>

definition replay :: "catalog \<Rightarrow> graph \<Rightarrow> graph \<Rightarrow> bool" where
  "replay A F u =
     (nodes u = nodes F \<and> order_new u = order_new F \<and> order_change u = order_change F \<and>
      order_remove u = order_remove F \<and>
      (\<forall>nm. set (recorded F nm) \<subseteq> set (recorded u nm) \<and>
            (\<forall>v\<in>set (recorded u nm).
               v \<in> set (recorded F nm) \<or> (req_name v = nm \<and> keeps A F v))))"

section \<open>Verification\<close>

lemmas model_defs =
  DepGraph_init_def load_install_db_def load_pass1_def load_pass2_def load_extra_def
  load_requirement_def MarkMixin_init_def Distribution_def get_requirements_def
  extra_requires_def parse_def req_name_def lower_def lower_char_def has_package_def
  dict_get_def mark_new_requirement_def default_get_def set_add_def Let_def
  add_requirement_head_def touch_edges_def to_satisfy_def recorded_def satisfying_packages_def
  satisfies_all_def req_contains_def mark_for_install_def mark_for_change_def
  mark_for_removal_def pkg1_or_pkg_def version_key_def parse_version_def push_def
  list_remove_def truthy_def Order_init_def vals_def keys_def get_marks_def installs_def
  changes_def removed_def rearrange_list_def list_sort_def rank_def indices_def

lemmas example_defs =
  example_graph_def example_installed_def example_available_def fabric_091_def
  fabric_092_def paramiko_09_def pycrypto_21_def pycrypto_23_def virtualenv_140_def

lemmas extras_defs =
  extras_graph_def extras_installed_def extras_available_def app_10_def lib_10_def dep_10_def

lemmas tool_defs =
  tool_graph_def tool_installed_def tool_available_def tool_net_def tool_20_def tool_10_def
  http_10_def urls_10_def

subsection \<open>A deeper recursion bound does not change a result\<close>

lemma for_requirements_mono:
  assumes "\<And>r s y. f r s = Some y \<Longrightarrow> g r s = Some y"
  shows "for_requirements f rs ret s = Some x \<Longrightarrow> for_requirements g rs ret s = Some x"
proof (induction rs arbitrary: ret s)
  case Nil
  then show ?case by simp
next
  case (Cons r rs)
  from Cons.prems obtain y where y: "f r s = Some y"
    by (cases "f r s") auto
  then have g: "g r s = Some y" by (rule assms)
  obtain res s1 where ys: "y = (res, s1)" by (cases y)
  show ?case
  proof (cases res)
    case (Inl e)
    with Cons.prems y g ys show ?thesis by auto
  next
    case (Inr b)
    with Cons.prems y ys have "for_requirements f rs (ret \<or> b) s1 = Some x" by simp
    then have "for_requirements g rs (ret \<or> b) s1 = Some x" by (rule Cons.IH)
    with g ys Inr show ?thesis by simp
  qed
qed

lemma add_requirement_mono:
  "add_requirement k A nodeps parent r s = Some x \<Longrightarrow>
   add_requirement (k + j) A nodeps parent r s = Some x"
proof (induction k arbitrary: parent r s x)
  case 0
  then show ?case by simp
next
  case (Suc k)
  obtain res s1 where h: "add_requirement_head A parent r s = (res, s1)"
    by (cases "add_requirement_head A parent r s")
  show ?case
  proof (cases res)
    case (Inl e)
    with Suc.prems h show ?thesis by simp
  next
    case (Inr rn)
    obtain ret node where rn: "rn = (ret, node)" by (cases rn)
    show ?thesis
    proof (cases "nodeps \<or> (\<exists>e. pkg1_or_pkg node = Inl e)")
      case True
      with Suc.prems h Inr rn show ?thesis by auto
    next
      case False
      then obtain p where p: "pkg1_or_pkg node = Inr p" and nd: "\<not> nodeps"
        by (cases "pkg1_or_pkg node") auto
      from Suc.prems h Inr rn p nd
      have run: "for_requirements (add_requirement k A nodeps (Some (node_name node)))
              (get_requirements p (extras r) False) ret s1 = Some x"
        by simp
      have "for_requirements (add_requirement (k + j) A nodeps (Some (node_name node)))
              (get_requirements p (extras r) False) ret s1 = Some x"
        by (rule for_requirements_mono [OF Suc.IH run])
      with h Inr rn p nd show ?thesis by simp
    qed
  qed
qed

lemma for_names_mono:
  assumes "\<And>n s y. f n s = Some y \<Longrightarrow> g n s = Some y"
  shows "for_names f ns s = Some x \<Longrightarrow> for_names g ns s = Some x"
proof (induction ns arbitrary: s)
  case Nil
  then show ?case by simp
next
  case (Cons n ns)
  from Cons.prems obtain y where y: "f n s = Some y"
    by (cases "f n s") auto
  then have g: "g n s = Some y" by (rule assms)
  obtain res s1 where ys: "y = (res, s1)" by (cases y)
  show ?case
  proof (cases res)
    case (Inl e)
    with Cons.prems y g ys show ?thesis by auto
  next
    case (Inr u)
    with Cons.prems y ys have "for_names f ns s1 = Some x" by simp
    then have "for_names g ns s1 = Some x" by (rule Cons.IH)
    with g ys Inr show ?thesis by simp
  qed
qed

lemma remove_package_mono:
  "remove_package k nmo nodeps s = Some x \<Longrightarrow> remove_package (k + j) nmo nodeps s = Some x"
proof (induction k arbitrary: nmo nodeps s x)
  case 0
  then show ?case by simp
next
  case (Suc k)
  have step: "for_names (\<lambda>name1. remove_package k name1 False) ns s' = Some x \<Longrightarrow>
      for_names (\<lambda>name1. remove_package (k + j) name1 False) ns s' = Some x" for ns s'
    by (rule for_names_mono [of "\<lambda>name1. remove_package k name1 False"]) (rule Suc.IH)
  from Suc.prems show ?case
    by (auto split: prod.splits sum.splits option.splits if_splits intro: step)
qed

subsection \<open>The installed states\<close>

lemma example_graph_eq:
  "example_graph =
     \<lparr>nodes =
        [(''fabric'', \<lparr>node_name = ''fabric'', pkg = Some fabric_091, pkg1 = PNone\<rparr>),
         (''pycrypto'', \<lparr>node_name = ''pycrypto'', pkg = Some pycrypto_21, pkg1 = PNone\<rparr>),
         (''virtualenv'',
          \<lparr>node_name = ''virtualenv'', pkg = Some virtualenv_140, pkg1 = PNone\<rparr>)],
      order_new = Order_init, order_change = Order_init, order_remove = Order_init,
      edges = [(''pycrypto'', [(Some ''fabric'', [parse ''pycrypto'' []])])]\<rparr>"
  by (simp add: example_defs model_defs)

lemma extras_graph_eq:
  "extras_graph =
     \<lparr>nodes =
        [(''app'', \<lparr>node_name = ''app'', pkg = Some app_10, pkg1 = PNone\<rparr>),
         (''lib'', \<lparr>node_name = ''lib'', pkg = Some lib_10, pkg1 = PNone\<rparr>)],
      order_new = Order_init, order_change = Order_init, order_remove = Order_init,
      edges =
        [(''lib'',
          [(Some ''app'', [\<lparr>project_name = ''lib'', specs = [], extras = [''fast'']\<rparr>])]),
         (''dep'', [(Some ''app'', [parse ''dep'' [(GE, [2])]])])]\<rparr>"
  by (simp add: extras_defs model_defs)

lemma empty_graph_eq: "DepGraph_init [] = MarkMixin_init"
  by (simp add: model_defs)

subsection \<open>Evaluation of the scenarios\<close>

lemma add_fabric:
  "add_requirement 3 example_available False None (parse ''fabric'' []) example_graph
     = Some (Inr True, graph_fabric)"
  by (simp add: eval_nat_numeral graph_fabric_def example_defs model_defs)

lemma add_pycrypto_23:
  "add_requirement 1 example_available False None (parse ''pycrypto'' [(GE, [2, 3])]) example_graph
     = Some (Inr True, graph_pycrypto_23)"
  by (simp add: graph_pycrypto_23_def example_defs model_defs)

lemma add_pycrypto_eq:
  "add_requirement 1 example_available False None (parse ''pycrypto'' [(EQ, [2, 1])]) example_graph
     = Some (Inr False, graph_pycrypto_eq)"
  by (simp add: graph_pycrypto_eq_def example_defs model_defs)

lemma remove_pycrypto:
  "remove_package 2 (Some ''pycrypto'') False example_graph = Some (Inr (), graph_removed)"
  by (simp add: eval_nat_numeral graph_removed_def example_defs model_defs)

lemma add_dep:
  "add_requirement 1 extras_available nodeps None (parse ''dep'' [(LT, [2])]) extras_graph
     = Some (Inr True, graph_dep)"
  by (simp add: graph_dep_def extras_defs model_defs)

lemma add_tool_net:
  "add_requirement 3 tool_available False None tool_net tool_graph
     = Some (Inr True, graph_tool_once)"
  by (simp add: eval_nat_numeral graph_tool_once_def tool_defs model_defs)

lemma add_new_pycrypto:
  "add_requirement 1 example_available False None (parse ''pycrypto'' []) (DepGraph_init [])
     = Some (Inr True, graph_new_pycrypto)"
  by (simp add: graph_new_pycrypto_def example_defs model_defs)

subsection \<open>The first phase of \<open>add_requirement\<close>\<close>

lemma satisfying_packages_releases:
  "satisfying_packages to_sat releases = p # rest \<Longrightarrow> releases \<noteq> []"
  by (auto simp: satisfying_packages_def)

lemma satisfying_packages_hd:
  assumes "satisfying_packages to_sat releases = p # rest"
  shows "satisfies_all to_sat p \<and> p \<in> set releases"
proof -
  have "p \<in> set (satisfying_packages to_sat releases)" by (simp add: assms)
  then show ?thesis by (simp add: satisfying_packages_def)
qed

lemma descending_filter:
  "descending releases \<Longrightarrow> descending (satisfying_packages to_sat releases)"
  by (simp add: descending_def satisfying_packages_def sorted_wrt_filter)

lemma descending_first:
  assumes "descending releases" and "satisfying_packages to_sat releases = p # rest"
    and "p0 \<in> set releases" and "satisfies_all to_sat p0"
  shows "version_key p0 \<le> version_key p"
proof -
  from assms(1) have "descending (satisfying_packages to_sat releases)"
    by (rule descending_filter)
  with assms(2) have d: "\<forall>q\<in>set rest. version_key q \<le> version_key p"
    by (simp add: descending_def)
  from assms(3,4) have "p0 \<in> set (satisfying_packages to_sat releases)"
    by (simp add: satisfying_packages_def)
  with assms(2) have "p0 = p \<or> p0 \<in> set rest" by simp
  with d show ?thesis by auto
qed

lemma mark_for_install_not_found:
  "mark_for_install nm p parent r s = (Inl e, s1) \<Longrightarrow> e \<in> {AssertionError, KeyError, ValueError}"
  by (auto simp: mark_for_install_def push_def list_remove_def Let_def
      split: if_splits prod.splits sum.splits)

lemma mark_for_change_not_found:
  "mark_for_change nm p parent r s = (Inl e, s1) \<Longrightarrow>
   e \<in> {AssertionError, AttributeError, KeyError, ValueError}"
  by (auto simp: mark_for_change_def push_def list_remove_def Let_def
      split: if_splits prod.splits sum.splits option.splits)

lemma pkg1_or_pkg_not_found:
  "pkg1_or_pkg node = Inl e \<Longrightarrow> e \<in> {AssertionError, AttributeError}"
  by (auto simp: pkg1_or_pkg_def split: pkg1_value.splits option.splits)

lemma add_requirement_head_not_found:
  assumes "A (req_name r) = Inr releases"
  shows "not_found_raised (case add_requirement_head A parent r s of
            (Inl e, s1) \<Rightarrow> Some (Inl e :: error + bool, s1) | (Inr x, s1) \<Rightarrow> None)
         = not_found releases parent r s"
proof (cases "not_found releases parent r s")
  case (Some e)
  with assms show ?thesis
    by (auto simp: add_requirement_head_def not_found_def not_found_raised_def Let_def
        split: if_splits list.splits)
next
  case None
  then obtain p rest where ne: "releases \<noteq> []"
    and sat: "satisfying_packages (to_satisfy s r) releases = p # rest"
    by (auto simp: not_found_def split: if_splits list.splits)
      (metis list.exhaust)
  show ?thesis
  proof (cases "add_requirement_head A parent r s")
    case (Pair res s1)
    show ?thesis
    proof (cases res)
      case (Inr x)
      with Pair None show ?thesis by (simp add: not_found_raised_def)
    next
      case (Inl e)
      with Pair assms ne sat have "e \<in> {AssertionError, AttributeError, KeyError, ValueError}"
        by (auto simp: add_requirement_head_def Let_def
            split: if_splits option.splits sum.splits prod.splits
            dest: mark_for_install_not_found mark_for_change_not_found pkg1_or_pkg_not_found)
      with Pair Inl None show ?thesis by (auto simp: not_found_raised_def)
    qed
  qed
qed

subsection \<open>Dictionaries and recorded requirements\<close>

lemma dict_get_dict_set:
  "dict_get k' (dict_set k v d) = (if k' = k then Some v else dict_get k' d)"
  by (induction d) (auto simp: dict_get_def)

lemma map_of_dict_set:
  "map_of (dict_set k v d) k' = (if k' = k then Some v else map_of d k')"
  using dict_get_dict_set [of k' k v d] by (simp add: dict_get_def)

lemma fst_default_get:
  "fst (default_get dflt k d) = (case map_of d k of None \<Rightarrow> dflt | Some v \<Rightarrow> v)"
  by (simp add: default_get_def split: option.splits)

lemma map_of_snd_default_get:
  "map_of (snd (default_get dflt k d)) k' =
     (if k' = k then Some (fst (default_get dflt k d)) else map_of d k')"
  by (auto simp: default_get_def map_add_def split: option.splits)

lemma default_get_idem:
  "default_get dflt k (snd (default_get dflt k d)) = default_get dflt k d"
  by (auto simp: default_get_def map_add_def split: option.splits)

lemma vals_snd_default_get:
  "set (concat (vals (snd (default_get [] k d)))) = set (concat (vals d))"
  by (auto simp: default_get_def vals_def split: option.splits)

lemma vals_simps [simp]: "vals [] = []" "vals ((k, v) # d) = v # vals d"
  by (simp_all add: vals_def)

lemma set_concat_dict_set:
  "map_of d k = Some old \<Longrightarrow>
   set (concat (vals (dict_set k (old @ [r]) d))) = insert r (set (concat (vals d)))"
proof (induction d)
  case Nil
  then show ?case by simp
next
  case (Cons kv d)
  obtain k' v' where kv: "kv = (k', v')" by (cases kv)
  show ?case
  proof (cases "k' = k")
    case True
    with Cons.prems kv have "v' = old" by simp
    with True kv show ?thesis by auto
  next
    case False
    with Cons.prems kv have "map_of d k = Some old" by simp
    then have "set (concat (vals (dict_set k (old @ [r]) d))) = insert r (set (concat (vals d)))"
      by (rule Cons.IH)
    with False kv show ?thesis by simp
  qed
qed

lemma recorded_alt:
  "recorded s nm = concat (vals (case map_of (edges s) nm of None \<Rightarrow> [] | Some v \<Rightarrow> v))"
  by (simp add: recorded_def fst_default_get)

lemma recorded_touch_edges [simp]: "recorded (touch_edges nm s) nm' = recorded s nm'"
  by (simp add: recorded_alt touch_edges_def map_of_snd_default_get fst_default_get vals_def
      split: option.splits)

lemma nodes_touch_edges [simp]: "nodes (touch_edges nm s) = nodes s"
  and order_new_touch_edges [simp]: "order_new (touch_edges nm s) = order_new s"
  and order_change_touch_edges [simp]: "order_change (touch_edges nm s) = order_change s"
  and order_remove_touch_edges [simp]: "order_remove (touch_edges nm s) = order_remove s"
  by (simp_all add: touch_edges_def)

lemma nodes_mark_new_requirement [simp]: "nodes (mark_new_requirement n1 n2 r s) = nodes s"
  and order_new_mark_new_requirement [simp]:
    "order_new (mark_new_requirement n1 n2 r s) = order_new s"
  and order_change_mark_new_requirement [simp]:
    "order_change (mark_new_requirement n1 n2 r s) = order_change s"
  and order_remove_mark_new_requirement [simp]:
    "order_remove (mark_new_requirement n1 n2 r s) = order_remove s"
  by (simp_all add: mark_new_requirement_def Let_def split: prod.splits)

lemma recorded_mark_new_requirement:
  "set (recorded (mark_new_requirement n1 n2 r s) nm) =
     (if nm = n1 then insert r (set (recorded s nm)) else set (recorded s nm))"
proof -
  obtain inner es where d1: "default_get [] n1 (edges s) = (inner, es)"
    by (cases "default_get [] n1 (edges s)")
  obtain rl inner' where d2: "default_get [] n2 inner = (rl, inner')"
    by (cases "default_get [] n2 inner")
  have e: "edges (mark_new_requirement n1 n2 r s) = dict_set n1 (dict_set n2 (rl @ [r]) inner') es"
    by (simp add: mark_new_requirement_def d1 d2)
  have inner: "inner = fst (default_get [] n1 (edges s))" and es: "es = snd (default_get [] n1 (edges s))"
    by (simp_all add: d1)
  have rl: "map_of inner' n2 = Some rl"
    using map_of_snd_default_get [of "[]" n2 inner n2] by (simp add: d2)
  have i': "set (concat (vals inner')) = set (concat (vals inner))"
    using vals_snd_default_get [of n2 inner] by (simp add: d2)
  show ?thesis
  proof (cases "nm = n1")
    case True
    have "recorded (mark_new_requirement n1 n2 r s) n1
        = concat (vals (dict_set n2 (rl @ [r]) inner'))"
      by (simp add: recorded_alt e map_of_dict_set)
    moreover have "recorded s n1 = concat (vals inner)"
      by (simp add: recorded_def inner)
    ultimately show ?thesis
      using True set_concat_dict_set [OF rl, of r] i' by simp
  next
    case False
    then have "map_of (edges (mark_new_requirement n1 n2 r s)) nm = map_of (edges s) nm"
      by (simp add: e map_of_dict_set es map_of_snd_default_get)
    with False show ?thesis by (simp add: recorded_alt)
  qed
qed

lemma mark_new_requirement_touch_edges:
  "mark_new_requirement n1 n2 r (touch_edges n1 s) = mark_new_requirement n1 n2 r s"
  by (simp add: mark_new_requirement_def touch_edges_def default_get_idem)

subsection \<open>Satisfaction depends on the version key and on the set of requirements\<close>

lemma satisfies_all_set:
  "set a = set b \<Longrightarrow> satisfies_all a p = satisfies_all b p"
  by (simp add: satisfies_all_def list_all_iff)

lemma satisfies_all_iff:
  "satisfies_all a p \<longleftrightarrow> (\<forall>r\<in>set a. req_contains r (version p))"
  by (simp add: satisfies_all_def list_all_iff)

lemma satisfies_all_version_key:
  "version_key p = version_key q \<Longrightarrow> satisfies_all a p = satisfies_all a q"
  by (simp add: satisfies_all_def req_contains_def version_key_def)

lemma satisfying_packages_set:
  "set a = set b \<Longrightarrow> satisfying_packages a releases = satisfying_packages b releases"
  using satisfies_all_set [of a b] by (simp add: satisfying_packages_def cong: filter_cong)

subsection \<open>What the mark primitives do when they return\<close>

lemma recorded_updates [simp]:
  "recorded (s\<lparr>nodes := ns\<rparr>) nm = recorded s nm"
  "recorded (s\<lparr>order_new := ord\<rparr>) nm = recorded s nm"
  "recorded (s\<lparr>order_change := ord\<rparr>) nm = recorded s nm"
  "recorded (s\<lparr>order_remove := ord\<rparr>) nm = recorded s nm"
  by (simp_all add: recorded_def)

lemma push_Inr:
  "push e ord = (Inr u, ord') \<longleftrightarrow>
     e \<notin> elements_set ord \<and>
     ord' = ord\<lparr>elements := elements ord @ [e], elements_set := insert e (elements_set ord)\<rparr>"
  by (auto simp: push_def split: sum.splits)

lemma push_present:
  "e \<in> elements_set ord \<Longrightarrow> \<exists>err ord'. push e ord = (Inl err, ord')"
  by (simp add: push_def split: sum.splits)

lemma mark_for_install_Inr:
  assumes "mark_for_install nm p parent r s = (Inr node, s1)"
  shows "dict_get nm (nodes s) = None"
    and "node = \<lparr>node_name = nm, pkg = None, pkg1 = PDist p\<rparr>"
    and "nodes s1 = dict_set nm node (nodes s)"
    and "order_change s1 = order_change s"
    and "set (recorded s1 nm') =
          (if nm' = nm \<and> truthy parent then insert r (set (recorded s nm'))
           else set (recorded s nm'))"
  using assms
  by (auto simp: mark_for_install_def Let_def push_Inr recorded_mark_new_requirement
      split: if_splits prod.splits sum.splits)

lemma mark_for_change_Inr:
  assumes "mark_for_change nm p parent r s = (Inr node, s1)"
  obtains node0 inst where "dict_get nm (nodes s) = Some node0" and "pkg node0 = Some inst"
    and "node = \<lparr>node_name = nm, pkg = Some inst,
                  pkg1 = (if version_key p = version_key inst then PNone else PDist p)\<rparr>"
    and "nodes s1 = dict_set nm node (nodes s)"
    and "nm \<notin> elements_set (order_change s)"
    and "elements_set (order_change s1) = insert nm (elements_set (order_change s))"
    and "\<And>nm'. set (recorded s1 nm') =
          (if nm' = nm \<and> truthy parent then insert r (set (recorded s nm'))
           else set (recorded s nm'))"
proof -
  from assms obtain node0 where n0: "dict_get nm (nodes s) = Some node0"
    by (cases "dict_get nm (nodes s)") (auto simp: mark_for_change_def)
  from assms n0 obtain inst where inst: "pkg node0 = Some inst"
    by (cases "pkg node0") (auto simp: mark_for_change_def)
  let ?node = "\<lparr>node_name = nm, pkg = Some inst,
                  pkg1 = (if version_key p = version_key inst then PNone else PDist p)\<rparr>"
  from assms n0 inst have "node = ?node \<and> nodes s1 = dict_set nm ?node (nodes s)
      \<and> nm \<notin> elements_set (order_change s)
      \<and> elements_set (order_change s1) = insert nm (elements_set (order_change s))
      \<and> (\<forall>nm'. set (recorded s1 nm') =
          (if nm' = nm \<and> truthy parent then insert r (set (recorded s nm'))
           else set (recorded s nm')))"
    by (auto simp: mark_for_change_def Let_def push_Inr recorded_mark_new_requirement
        split: if_splits prod.splits sum.splits)
  with n0 inst that show thesis by blast
qed

subsection \<open>The three ways the first phase of \<open>add_requirement\<close> returns\<close>

lemma add_requirement_head_Inr:
  assumes "add_requirement_head A parent r s = (Inr (ret, node), s1)"
  obtains (install) releases p rest where
      "dict_get (req_name r) (nodes s) = None" and "A (req_name r) = Inr releases"
      and "satisfying_packages [r] releases = p # rest"
      and "mark_for_install (req_name r) p parent r s = (Inr node, s1)" and "ret"
  | (change) node0 q releases p rest where
      "dict_get (req_name r) (nodes s) = Some node0" and "pkg1_or_pkg node0 = Inr q"
      and "A (req_name r) = Inr releases"
      and "satisfying_packages (r # recorded s (req_name r)) releases = p # rest"
      and "mark_for_change (req_name r) p parent r (touch_edges (req_name r) s) = (Inr node, s1)"
      and "ret = (pkg1 node \<noteq> PNone)"
  | (keep) node0 q releases p rest where
      "dict_get (req_name r) (nodes s) = Some node0" and "pkg1_or_pkg node0 = Inr q"
      and "A (req_name r) = Inr releases"
      and "satisfying_packages (r # recorded s (req_name r)) releases = p # rest"
      and "version_key q = version_key p \<or>
           (version_key p < version_key q \<and> satisfies_all (r # recorded s (req_name r)) q)"
      and "s1 = mark_new_requirement (req_name r) parent r (touch_edges (req_name r) s)"
      and "node = node0" and "\<not> ret"
proof (cases "dict_get (req_name r) (nodes s)")
  case None
  with assms have "\<exists>releases p rest. A (req_name r) = Inr releases
      \<and> satisfying_packages [r] releases = p # rest
      \<and> mark_for_install (req_name r) p parent r s = (Inr node, s1) \<and> ret"
    by (auto simp: add_requirement_head_def to_satisfy_def Let_def
        split: sum.splits if_splits list.splits prod.splits)
  with None install show thesis by blast
next
  case (Some node0)
  with assms have "\<exists>q releases p rest. pkg1_or_pkg node0 = Inr q \<and> A (req_name r) = Inr releases
      \<and> satisfying_packages (r # recorded s (req_name r)) releases = p # rest
      \<and> ((mark_for_change (req_name r) p parent r (touch_edges (req_name r) s) = (Inr node, s1)
            \<and> ret = (pkg1 node \<noteq> PNone))
          \<or> ((version_key q = version_key p \<or>
                (version_key p < version_key q \<and> satisfies_all (r # recorded s (req_name r)) q))
             \<and> s1 = mark_new_requirement (req_name r) parent r (touch_edges (req_name r) s)
             \<and> node = node0 \<and> \<not> ret))"
    by (auto simp: add_requirement_head_def to_satisfy_def Let_def
        split: sum.splits if_splits list.splits prod.splits)
  with Some change keep show thesis by blast
qed

lemma add_requirement_head_keep:
  assumes "dict_get (req_name r) (nodes s) = Some node0" and "pkg1_or_pkg node0 = Inr q"
    and "A (req_name r) = Inr releases"
    and "satisfying_packages (r # recorded s (req_name r)) releases = p # rest"
    and "version_key q = version_key p \<or>
         (version_key p < version_key q \<and> satisfies_all (r # recorded s (req_name r)) q)"
  shows "add_requirement_head A parent r s =
           (Inr (False, node0), mark_new_requirement (req_name r) parent r (touch_edges (req_name r) s))"
proof -
  from assms(4) have "releases \<noteq> []" by (rule satisfying_packages_releases)
  with assms show ?thesis
    by (auto simp: add_requirement_head_def to_satisfy_def Let_def)
qed

subsection \<open>The invariant of the effective distribution\<close>

lemma settledI:
  assumes "dict_get nm (nodes s) = Some node" and "pkg1_or_pkg node = Inr p"
    and "satisfies_all reqs p" and "satisfies_all (recorded s nm) p"
    and "set reqs \<subseteq> set (recorded s nm) \<or> pkg node = None \<or> nm \<in> elements_set (order_change s)"
  shows "settled s nm reqs"
  using assms by (simp add: settled_def)

lemma settledE:
  assumes "settled s nm reqs"
  obtains node p where "dict_get nm (nodes s) = Some node" and "pkg1_or_pkg node = Inr p"
    and "satisfies_all reqs p" and "satisfies_all (recorded s nm) p"
    and "set reqs \<subseteq> set (recorded s nm) \<or> pkg node = None \<or> nm \<in> elements_set (order_change s)"
  using assms by (auto simp: settled_def split: option.splits sum.splits)

lemma edges_known_recorded:
  assumes "edges_known s"
  shows "has_package nm s \<or> recorded s nm = []"
proof (cases "map_of (edges s) nm")
  case None
  then show ?thesis by (simp add: recorded_alt)
next
  case (Some inner)
  then have "(nm, inner) \<in> set (edges s)" by (rule map_of_SomeD)
  with assms have "has_package nm s \<or> concat (vals inner) = []"
    by (auto simp: edges_known_def list_all_iff)
  with Some show ?thesis by (simp add: recorded_alt)
qed

lemma add_requirement_head_known:
  assumes "add_requirement_head A parent r s = (Inr (ret, node), s1)"
    and "\<forall>nm. has_package nm s \<or> recorded s nm = []"
  shows "\<forall>nm. has_package nm s1 \<or> recorded s1 nm = []"
  using assms(1)
proof (cases rule: add_requirement_head_Inr)
  case (install releases p rest)
  note mi = mark_for_install_Inr [OF install(4)]
  show ?thesis
  proof
    fix nm
    from assms(2) have "has_package nm s \<or> recorded s nm = []" ..
    with mi(3) mi(5) [of nm] show "has_package nm s1 \<or> recorded s1 nm = []"
      by (auto simp: has_package_def dict_get_dict_set split: if_splits)
  qed
next
  case (change node0 q releases p rest)
  from change(5) obtain
    ns: "nodes s1 = dict_set (req_name r) node (nodes (touch_edges (req_name r) s))"
    and rec: "\<And>nm'. set (recorded s1 nm') =
          (if nm' = req_name r \<and> truthy parent
           then insert r (set (recorded (touch_edges (req_name r) s) nm'))
           else set (recorded (touch_edges (req_name r) s) nm'))"
    by (rule mark_for_change_Inr) blast
  show ?thesis
  proof
    fix nm
    from assms(2) have "has_package nm s \<or> recorded s nm = []" ..
    with ns rec [of nm] show "has_package nm s1 \<or> recorded s1 nm = []"
      by (auto simp: has_package_def dict_get_dict_set split: if_splits)
  qed
next
  case (keep node0 q releases p rest)
  show ?thesis
  proof
    fix nm
    from assms(2) have "has_package nm s \<or> recorded s nm = []" ..
    with keep(1,6) recorded_mark_new_requirement [of "req_name r" parent r "touch_edges (req_name r) s" nm]
    show "has_package nm s1 \<or> recorded s1 nm = []"
      by (auto simp: has_package_def split: if_splits)
  qed
qed

lemma add_requirement_head_settled:
  assumes "add_requirement_head A parent r s = (Inr (ret, node), s1)"
    and "settled s nm reqs"
  shows "settled s1 nm reqs"
proof -
  let ?n = "req_name r"
  from assms(2) obtain node_nm e where
    nd: "dict_get nm (nodes s) = Some node_nm" and e: "pkg1_or_pkg node_nm = Inr e"
    and sr: "satisfies_all reqs e" and se: "satisfies_all (recorded s nm) e"
    and g: "set reqs \<subseteq> set (recorded s nm) \<or> pkg node_nm = None
            \<or> nm \<in> elements_set (order_change s)"
    by (rule settledE)
  from assms(1) show ?thesis
  proof (cases rule: add_requirement_head_Inr)
    case (install releases p rest)
    note mi = mark_for_install_Inr [OF install(4)]
    from install(1) nd have ne: "nm \<noteq> ?n" by auto
    from mi(3) nd ne have 1: "dict_get nm (nodes s1) = Some node_nm"
      by (simp add: dict_get_dict_set)
    from mi(5) [of nm] ne have 2: "set (recorded s1 nm) = set (recorded s nm)"
      by simp
    from 2 se have 3: "satisfies_all (recorded s1 nm) e"
      by (simp add: satisfies_all_iff)
    from g 2 mi(4) have 4: "set reqs \<subseteq> set (recorded s1 nm) \<or> pkg node_nm = None
            \<or> nm \<in> elements_set (order_change s1)"
      by simp
    from 1 e sr 3 4 show ?thesis by (rule settledI)
  next
    case (change node0 q releases p rest)
    from change(5) obtain node0' inst where
      d0: "dict_get ?n (nodes (touch_edges ?n s)) = Some node0'"
      and n0': "pkg node0' = Some inst"
      and nn: "node = \<lparr>node_name = ?n, pkg = Some inst,
                  pkg1 = (if version_key p = version_key inst then PNone else PDist p)\<rparr>"
      and ns: "nodes s1 = dict_set ?n node (nodes (touch_edges ?n s))"
      and no: "?n \<notin> elements_set (order_change (touch_edges ?n s))"
      and oc: "elements_set (order_change s1)
                = insert ?n (elements_set (order_change (touch_edges ?n s)))"
      and rec: "\<And>nm'. set (recorded s1 nm') =
          (if nm' = ?n \<and> truthy parent
           then insert r (set (recorded (touch_edges ?n s) nm'))
           else set (recorded (touch_edges ?n s) nm'))"
      by (rule mark_for_change_Inr) blast
    from d0 change(1) have "node0' = node0" by simp
    with n0' have n0: "pkg node0 = Some inst" by simp
    show ?thesis
    proof (cases "nm = ?n")
      case False
      from ns nd False have 1: "dict_get nm (nodes s1) = Some node_nm"
        by (simp add: dict_get_dict_set)
      from rec [of nm] False have 2: "set (recorded s1 nm) = set (recorded s nm)"
        by simp
      from 2 se have 3: "satisfies_all (recorded s1 nm) e"
        by (simp add: satisfies_all_iff)
      from g 2 oc have 4: "set reqs \<subseteq> set (recorded s1 nm) \<or> pkg node_nm = None
            \<or> nm \<in> elements_set (order_change s1)"
        by auto
      from 1 e sr 3 4 show ?thesis by (rule settledI)
    next
      case True
      with nd change(1) have same: "node_nm = node0" by simp
      from g same n0 no True have sub: "set reqs \<subseteq> set (recorded s nm)" by simp
      let ?e = "if version_key p = version_key inst then inst else p"
      from satisfying_packages_hd [OF change(4)]
      have sp: "satisfies_all (r # recorded s ?n) p" by simp
      have "version_key ?e = version_key p" by simp
      then have "satisfies_all (r # recorded s ?n) ?e = satisfies_all (r # recorded s ?n) p"
        by (rule satisfies_all_version_key)
      with sp have se': "satisfies_all (r # recorded s ?n) ?e" by simp
      from ns True have 1: "dict_get nm (nodes s1) = Some node"
        by (simp add: dict_get_dict_set)
      from nn have 2: "pkg1_or_pkg node = Inr ?e"
        by (simp add: pkg1_or_pkg_def)
      from rec [of nm] True have r1: "set (recorded s nm) \<subseteq> set (recorded s1 nm)"
        and r2: "set (recorded s1 nm) \<subseteq> insert r (set (recorded s nm))"
        by (auto split: if_splits)
      from se' sub True have 3: "satisfies_all reqs ?e"
        by (auto simp: satisfies_all_iff)
      from se' r2 True have 4: "satisfies_all (recorded s1 nm) ?e"
        by (auto simp: satisfies_all_iff)
      from sub r1 have 5: "set reqs \<subseteq> set (recorded s1 nm) \<or> pkg node = None
            \<or> nm \<in> elements_set (order_change s1)"
        by auto
      from 1 2 3 4 5 show ?thesis by (rule settledI)
    qed
  next
    case (keep node0 q releases p rest)
    from keep(6) nd have 1: "dict_get nm (nodes s1) = Some node_nm" by simp
    have rec: "set (recorded s1 nm) =
        (if nm = ?n then insert r (set (recorded s nm)) else set (recorded s nm))"
      by (simp add: keep(6) recorded_mark_new_requirement)
    show ?thesis
    proof (cases "nm = ?n")
      case False
      with rec have 2: "set (recorded s1 nm) = set (recorded s nm)" by simp
      from 2 se have 3: "satisfies_all (recorded s1 nm) e"
        by (simp add: satisfies_all_iff)
      from g 2 keep(6) have 4: "set reqs \<subseteq> set (recorded s1 nm) \<or> pkg node_nm = None
            \<or> nm \<in> elements_set (order_change s1)"
        by simp
      from 1 e sr 3 4 show ?thesis by (rule settledI)
    next
      case True
      with nd keep(1) have same: "node_nm = node0" by simp
      with e keep(2) have eq: "e = q" by simp
      from satisfying_packages_hd [OF keep(4)]
      have sp: "satisfies_all (r # recorded s ?n) p" by simp
      from keep(5) sp have "satisfies_all (r # recorded s ?n) q"
        by (auto simp: satisfies_all_version_key [of q p])
      with eq have "req_contains r (version e)"
        by (simp add: satisfies_all_iff)
      with se rec True have 3: "satisfies_all (recorded s1 nm) e"
        by (simp add: satisfies_all_iff)
      from g rec True keep(6) have 4: "set reqs \<subseteq> set (recorded s1 nm) \<or> pkg node_nm = None
            \<or> nm \<in> elements_set (order_change s1)"
        by auto
      from 1 e sr 3 4 show ?thesis by (rule settledI)
    qed
  qed
qed

lemma add_requirement_head_settles:
  assumes "add_requirement_head A parent r s = (Inr (ret, node), s1)"
    and "has_package (req_name r) s \<or> recorded s (req_name r) = []"
  shows "settled s1 (req_name r) [r]"
proof -
  let ?n = "req_name r"
  from assms(1) show ?thesis
  proof (cases rule: add_requirement_head_Inr)
    case (install releases p rest)
    note mi = mark_for_install_Inr [OF install(4)]
    from install(1) assms(2) have emp: "recorded s ?n = []"
      by (simp add: has_package_def)
    from mi(3) have 1: "dict_get ?n (nodes s1) = Some node"
      by (simp add: dict_get_dict_set)
    from mi(2) have 2: "pkg1_or_pkg node = Inr p"
      by (simp add: pkg1_or_pkg_def)
    from satisfying_packages_hd [OF install(3)] have 3: "satisfies_all [r] p" by simp
    from mi(5) [of ?n] emp have "set (recorded s1 ?n) \<subseteq> {r}"
      by (auto split: if_splits)
    with 3 have 4: "satisfies_all (recorded s1 ?n) p"
      by (auto simp: satisfies_all_iff)
    from mi(2) have 5: "set [r] \<subseteq> set (recorded s1 ?n) \<or> pkg node = None
          \<or> ?n \<in> elements_set (order_change s1)"
      by simp
    from 1 2 3 4 5 show ?thesis by (rule settledI)
  next
    case (change node0 q releases p rest)
    from change(5) obtain inst where
      nn: "node = \<lparr>node_name = ?n, pkg = Some inst,
                  pkg1 = (if version_key p = version_key inst then PNone else PDist p)\<rparr>"
      and ns: "nodes s1 = dict_set ?n node (nodes (touch_edges ?n s))"
      and oc: "elements_set (order_change s1)
                = insert ?n (elements_set (order_change (touch_edges ?n s)))"
      and rec: "\<And>nm'. set (recorded s1 nm') =
          (if nm' = ?n \<and> truthy parent
           then insert r (set (recorded (touch_edges ?n s) nm'))
           else set (recorded (touch_edges ?n s) nm'))"
      by (rule mark_for_change_Inr) blast
    let ?e = "if version_key p = version_key inst then inst else p"
    from satisfying_packages_hd [OF change(4)]
    have sp: "satisfies_all (r # recorded s ?n) p" by simp
    have "version_key ?e = version_key p" by simp
    then have "satisfies_all (r # recorded s ?n) ?e = satisfies_all (r # recorded s ?n) p"
      by (rule satisfies_all_version_key)
    with sp have se: "satisfies_all (r # recorded s ?n) ?e" by simp
    from ns have 1: "dict_get ?n (nodes s1) = Some node"
      by (simp add: dict_get_dict_set)
    from nn have 2: "pkg1_or_pkg node = Inr ?e"
      by (simp add: pkg1_or_pkg_def)
    from se have 3: "satisfies_all [r] ?e"
      by (simp add: satisfies_all_iff)
    from rec [of ?n] have "set (recorded s1 ?n) \<subseteq> insert r (set (recorded s ?n))"
      by (auto split: if_splits)
    with se have 4: "satisfies_all (recorded s1 ?n) ?e"
      by (auto simp: satisfies_all_iff)
    from oc have 5: "set [r] \<subseteq> set (recorded s1 ?n) \<or> pkg node = None
          \<or> ?n \<in> elements_set (order_change s1)"
      by simp
    from 1 2 3 4 5 show ?thesis by (rule settledI)
  next
    case (keep node0 q releases p rest)
    from keep(1,6) have 1: "dict_get ?n (nodes s1) = Some node0" by simp
    have rec: "set (recorded s1 ?n) = insert r (set (recorded s ?n))"
      by (simp add: keep(6) recorded_mark_new_requirement)
    from satisfying_packages_hd [OF keep(4)]
    have sp: "satisfies_all (r # recorded s ?n) p" by simp
    from keep(5) sp have sq: "satisfies_all (r # recorded s ?n) q"
      by (auto simp: satisfies_all_version_key [of q p])
    then have 3: "satisfies_all [r] q"
      by (simp add: satisfies_all_iff)
    from sq rec have 4: "satisfies_all (recorded s1 ?n) q"
      by (simp add: satisfies_all_iff)
    from rec have 5: "set [r] \<subseteq> set (recorded s1 ?n) \<or> pkg node0 = None
          \<or> ?n \<in> elements_set (order_change s1)"
      by simp
    from 1 keep(2) 3 4 5 show ?thesis by (rule settledI)
  qed
qed

subsection \<open>Invariants through the transitive step\<close>

lemma for_requirements_invariant:
  assumes "for_requirements f rs ret s = Some (Inr b, s')" and "Q s"
    and "\<And>r s b s'. f r s = Some (Inr b, s') \<Longrightarrow> Q s \<Longrightarrow> Q s'"
  shows "Q s'"
  using assms(1,2)
proof (induction rs arbitrary: ret s)
  case Nil
  then show ?case by simp
next
  case (Cons r rs)
  from Cons.prems(1) obtain b1 s1 where f: "f r s = Some (Inr b1, s1)"
    and rest: "for_requirements f rs (ret \<or> b1) s1 = Some (Inr b, s')"
    by (auto split: option.splits sum.splits prod.splits)
  from f Cons.prems(2) have "Q s1" by (rule assms(3))
  with rest show ?case by (rule Cons.IH)
qed

lemma add_requirement_preserves:
  assumes head: "\<And>parent r s ret node s1.
      add_requirement_head A parent r s = (Inr (ret, node), s1) \<Longrightarrow> Q s \<Longrightarrow> Q s1"
  shows "add_requirement k A nodeps parent r s = Some (Inr b, s') \<Longrightarrow> Q s \<Longrightarrow> Q s'"
proof (induction k arbitrary: parent r s b s')
  case 0
  then show ?case by simp
next
  case (Suc k)
  from Suc.prems(1) obtain ret node s1 where
    h: "add_requirement_head A parent r s = (Inr (ret, node), s1)"
    by (auto split: prod.splits sum.splits)
  from h Suc.prems(2) have q1: "Q s1" by (rule head)
  show ?case
  proof (cases nodeps)
    case True
    with Suc.prems(1) h have "s' = s1" by simp
    with q1 show ?thesis by simp
  next
    case False
    with Suc.prems(1) h obtain p where
      run: "for_requirements (add_requirement k A nodeps (Some (node_name node)))
              (get_requirements p (extras r) False) ret s1 = Some (Inr b, s')"
      by (auto split: sum.splits)
    from run q1 show ?thesis
      by (rule for_requirements_invariant) (rule Suc.IH)
  qed
qed

text \<open>
  A call that returns normally keeps the graph free of requirements recorded for names
  without a node.
\<close>

lemma add_requirement_known:
  assumes "add_requirement k A nodeps parent r s = Some (Inr b, s')"
    and "\<forall>nm. has_package nm s \<or> recorded s nm = []"
  shows "\<forall>nm. has_package nm s' \<or> recorded s' nm = []"
  using assms
  by (rule add_requirement_preserves [rotated]) (rule add_requirement_head_known)

subsection \<open>A call repeated\<close>

lemma keepsI:
  assumes "dict_get (req_name r) (nodes s) = Some node" and "pkg1_or_pkg node = Inr q"
    and "A (req_name r) = Inr releases"
    and "satisfying_packages (r # recorded s (req_name r)) releases = p # rest"
    and "version_key q = version_key p \<or>
         (version_key p < version_key q \<and> satisfies_all (r # recorded s (req_name r)) q \<and>
          r \<in> set (recorded s (req_name r)))"
  shows "keeps A s r"
  using assms by (simp add: keeps_def)

lemma keepsE:
  assumes "keeps A s r"
  obtains node q releases p rest where
    "dict_get (req_name r) (nodes s) = Some node" and "pkg1_or_pkg node = Inr q"
    and "A (req_name r) = Inr releases"
    and "satisfying_packages (r # recorded s (req_name r)) releases = p # rest"
    and "version_key q = version_key p \<or>
         (version_key p < version_key q \<and> satisfies_all (r # recorded s (req_name r)) q \<and>
          r \<in> set (recorded s (req_name r)))"
  using assms by (auto simp: keeps_def split: option.splits sum.splits list.splits)

lemma keeps_cong:
  assumes "dict_get (req_name r) (nodes s1) = dict_get (req_name r) (nodes s)"
    and "set (recorded s1 (req_name r)) = set (recorded s (req_name r))"
  shows "keeps A s1 r = keeps A s r"
proof -
  from assms(2) have eq: "set (r # recorded s1 (req_name r)) = set (r # recorded s (req_name r))"
    by simp
  have a: "satisfying_packages (r # recorded s1 (req_name r)) releases
      = satisfying_packages (r # recorded s (req_name r)) releases" for releases
    using eq by (rule satisfying_packages_set)
  have b: "satisfies_all (r # recorded s1 (req_name r)) q
      = satisfies_all (r # recorded s (req_name r)) q" for q
    using eq by (rule satisfies_all_set)
  show ?thesis
    unfolding keeps_def a b assms ..
qed

lemma keeps_satisfies:
  assumes "keeps A s r" and "dict_get (req_name r) (nodes s) = Some node"
    and "pkg1_or_pkg node = Inr q"
  shows "satisfies_all (r # recorded s (req_name r)) q"
proof -
  from assms(1) obtain node' q' releases p rest where
    1: "dict_get (req_name r) (nodes s) = Some node'" and 2: "pkg1_or_pkg node' = Inr q'"
    and 4: "satisfying_packages (r # recorded s (req_name r)) releases = p # rest"
    and 5: "version_key q' = version_key p \<or>
         (version_key p < version_key q' \<and> satisfies_all (r # recorded s (req_name r)) q' \<and>
          r \<in> set (recorded s (req_name r)))"
    by (rule keepsE)
  from 1 2 assms(2,3) have q: "q' = q" by simp
  from satisfying_packages_hd [OF 4]
  have sp: "satisfies_all (r # recorded s (req_name r)) p" by simp
  from 5 sp q show ?thesis
    by (auto simp: satisfies_all_version_key [of q p])
qed

lemma satisfying_packages_more:
  assumes "satisfying_packages a releases = p # rest" and "set a \<subseteq> set b"
    and "satisfies_all b p"
  shows "\<exists>rest'. satisfying_packages b releases = p # rest'"
proof -
  from assms(1) obtain us vs where rel: "releases = us @ p # vs"
    and us: "\<forall>u\<in>set us. \<not> satisfies_all a u"
    by (auto simp: satisfying_packages_def filter_eq_Cons_iff)
  from us assms(2) have "\<forall>u\<in>set us. \<not> satisfies_all b u"
    by (auto simp: satisfies_all_iff)
  with rel assms(3) show ?thesis
    by (simp add: satisfying_packages_def)
qed

lemma add_requirement_head_change_version:
  assumes "dict_get (req_name r) (nodes s) = Some node0" and "pkg1_or_pkg node0 = Inr q"
    and "A (req_name r) = Inr releases"
    and "satisfying_packages (r # recorded s (req_name r)) releases = p # rest"
    and "add_requirement_head A parent r s = (Inr (ret, node), s1)"
    and "req_name r \<in> elements_set (order_change s1)"
    and "req_name r \<notin> elements_set (order_change s)"
  shows "version_key p \<noteq> version_key q"
proof
  assume "version_key p = version_key q"
  then have "version_key q = version_key p \<or>
      (version_key p < version_key q \<and> satisfies_all (r # recorded s (req_name r)) q)"
    by simp
  with assms(1-4) have "add_requirement_head A parent r s =
      (Inr (False, node0),
       mark_new_requirement (req_name r) parent r (touch_edges (req_name r) s))"
    by (rule add_requirement_head_keep)
  with assms(5) have "order_change s1 = order_change s" by auto
  with assms(6,7) show False by simp
qed

lemma add_requirement_head_keeps:
  assumes "add_requirement_head A parent r s = (Inr (ret, node), s1)"
    and "has_package (req_name r) s \<or> recorded s (req_name r) = []"
  shows "keeps A s1 r \<and> dict_get (req_name r) (nodes s1) = Some node \<and>
         (\<exists>q. pkg1_or_pkg node = Inr q)"
proof -
  let ?n = "req_name r"
  from assms(1) show ?thesis
  proof (cases rule: add_requirement_head_Inr)
    case (install releases p rest)
    note mi = mark_for_install_Inr [OF install(4)]
    from install(1) assms(2) have emp: "recorded s ?n = []"
      by (simp add: has_package_def)
    from mi(3) have 1: "dict_get ?n (nodes s1) = Some node"
      by (simp add: dict_get_dict_set)
    from mi(2) have 2: "pkg1_or_pkg node = Inr p"
      by (simp add: pkg1_or_pkg_def)
    from mi(5) [of ?n] emp have "set (r # recorded s1 ?n) = set [r]"
      by (auto split: if_splits)
    then have "satisfying_packages (r # recorded s1 ?n) releases
        = satisfying_packages [r] releases"
      by (rule satisfying_packages_set)
    with install(3) have 4: "satisfying_packages (r # recorded s1 ?n) releases = p # rest"
      by simp
    have 5: "version_key p = version_key p \<or>
         (version_key p < version_key p \<and> satisfies_all (r # recorded s1 ?n) p \<and>
          r \<in> set (recorded s1 ?n))"
      by simp
    from 1 2 install(2) 4 5 have "keeps A s1 r" by (rule keepsI)
    with 1 2 show ?thesis by simp
  next
    case (change node0 q releases p rest)
    from change(5) obtain inst where
      nn: "node = \<lparr>node_name = ?n, pkg = Some inst,
                  pkg1 = (if version_key p = version_key inst then PNone else PDist p)\<rparr>"
      and ns: "nodes s1 = dict_set ?n node (nodes (touch_edges ?n s))"
      and rec: "\<And>nm'. set (recorded s1 nm') =
          (if nm' = ?n \<and> truthy parent
           then insert r (set (recorded (touch_edges ?n s) nm'))
           else set (recorded (touch_edges ?n s) nm'))"
      by (rule mark_for_change_Inr) blast
    let ?e = "if version_key p = version_key inst then inst else p"
    have vk: "version_key ?e = version_key p" by simp
    from ns have 1: "dict_get ?n (nodes s1) = Some node"
      by (simp add: dict_get_dict_set)
    from nn have 2: "pkg1_or_pkg node = Inr ?e"
      by (simp add: pkg1_or_pkg_def)
    from rec [of ?n] have "set (r # recorded s1 ?n) = set (r # recorded s ?n)"
      by (auto split: if_splits)
    then have "satisfying_packages (r # recorded s1 ?n) releases
        = satisfying_packages (r # recorded s ?n) releases"
      by (rule satisfying_packages_set)
    with change(4) have 4: "satisfying_packages (r # recorded s1 ?n) releases = p # rest"
      by simp
    from vk have 5: "version_key ?e = version_key p \<or>
         (version_key p < version_key ?e \<and> satisfies_all (r # recorded s1 ?n) ?e \<and>
          r \<in> set (recorded s1 ?n))"
      by (rule disjI1)
    from 1 2 change(3) 4 5 have "keeps A s1 r" by (rule keepsI)
    with 1 2 show ?thesis by simp
  next
    case (keep node0 q releases p rest)
    from keep(1,6) have 1: "dict_get ?n (nodes s1) = Some node0" by simp
    have rec: "set (recorded s1 ?n) = insert r (set (recorded s ?n))"
      by (simp add: keep(6) recorded_mark_new_requirement)
    then have eq: "set (r # recorded s1 ?n) = set (r # recorded s ?n)" by auto
    then have "satisfying_packages (r # recorded s1 ?n) releases
        = satisfying_packages (r # recorded s ?n) releases"
      by (rule satisfying_packages_set)
    with keep(4) have 4: "satisfying_packages (r # recorded s1 ?n) releases = p # rest"
      by simp
    from eq have "satisfies_all (r # recorded s1 ?n) q = satisfies_all (r # recorded s ?n) q"
      by (rule satisfies_all_set)
    with keep(5) rec have 5: "version_key q = version_key p \<or>
         (version_key p < version_key q \<and> satisfies_all (r # recorded s1 ?n) q \<and>
          r \<in> set (recorded s1 ?n))"
      by auto
    from 1 keep(2,3) 4 5 have "keeps A s1 r" by (rule keepsI)
    with 1 keep(2,7) show ?thesis by simp
  qed
qed

lemma add_requirement_head_stays:
  assumes head: "add_requirement_head A parent r' s = (Inr (ret, node), s1)"
    and st: "stays A s r q0"
  shows "stays A s1 r q0"
proof -
  let ?n = "req_name r"
  let ?m = "req_name r'"
  from st obtain node_n where nd: "dict_get ?n (nodes s) = Some node_n"
    and dj: "(pkg1_or_pkg node_n = Inr q0 \<and> keeps A s r) \<or>
         (?n \<in> elements_set (order_change s) \<and> pkg1_or_pkg node_n \<noteq> Inr q0)"
    by (auto simp: stays_def split: option.splits)
  have other: "stays A s1 r q0"
    if 1: "dict_get ?n (nodes s1) = Some node_n"
      and 2: "set (recorded s1 ?n) = set (recorded s ?n)"
      and 3: "elements_set (order_change s) \<subseteq> elements_set (order_change s1)"
  proof -
    from 1 nd have "dict_get ?n (nodes s1) = dict_get ?n (nodes s)" by simp
    then have "keeps A s1 r = keeps A s r" using 2 by (rule keeps_cong)
    with dj 1 3 show ?thesis by (auto simp: stays_def)
  qed
  from head show ?thesis
  proof (cases rule: add_requirement_head_Inr)
    case (install releases p rest)
    note mi = mark_for_install_Inr [OF install(4)]
    from install(1) nd have ne: "?n \<noteq> ?m" by auto
    from mi(3) nd ne have 1: "dict_get ?n (nodes s1) = Some node_n"
      by (simp add: dict_get_dict_set)
    from mi(5) [of ?n] ne have 2: "set (recorded s1 ?n) = set (recorded s ?n)"
      by simp
    from mi(4) have 3: "elements_set (order_change s) \<subseteq> elements_set (order_change s1)"
      by simp
    from 1 2 3 show ?thesis by (rule other)
  next
    case (change node0 q releases p rest)
    from change(5) obtain inst where
      nn: "node = \<lparr>node_name = ?m, pkg = Some inst,
                  pkg1 = (if version_key p = version_key inst then PNone else PDist p)\<rparr>"
      and ns: "nodes s1 = dict_set ?m node (nodes (touch_edges ?m s))"
      and no: "?m \<notin> elements_set (order_change (touch_edges ?m s))"
      and oc: "elements_set (order_change s1)
                = insert ?m (elements_set (order_change (touch_edges ?m s)))"
      and rec: "\<And>nm'. set (recorded s1 nm') =
          (if nm' = ?m \<and> truthy parent
           then insert r' (set (recorded (touch_edges ?m s) nm'))
           else set (recorded (touch_edges ?m s) nm'))"
      by (rule mark_for_change_Inr) blast
    show ?thesis
    proof (cases "?n = ?m")
      case False
      from ns nd False have 1: "dict_get ?n (nodes s1) = Some node_n"
        by (simp add: dict_get_dict_set)
      from rec [of ?n] False have 2: "set (recorded s1 ?n) = set (recorded s ?n)"
        by simp
      from oc have 3: "elements_set (order_change s) \<subseteq> elements_set (order_change s1)"
        by auto
      from 1 2 3 show ?thesis by (rule other)
    next
      case True
      with nd change(1) have same: "node_n = node0" by simp
      from no True have no': "?n \<notin> elements_set (order_change s)" by simp
      with dj same change(2) have q: "q = q0" by simp
      from oc have in1: "?m \<in> elements_set (order_change s1)" by simp
      from no have "?m \<notin> elements_set (order_change s)" by simp
      with change(1,2,3,4) head in1 have "version_key p \<noteq> version_key q"
        by (rule add_requirement_head_change_version)
      with q have ne: "version_key p \<noteq> version_key q0" by simp
      let ?e = "if version_key p = version_key inst then inst else p"
      have "version_key ?e = version_key p" by simp
      with ne have neq: "?e \<noteq> q0" by auto
      from nn have "pkg1_or_pkg node = Inr ?e"
        by (simp add: pkg1_or_pkg_def)
      with neq have 2: "pkg1_or_pkg node \<noteq> Inr q0" by simp
      from ns True have 1: "dict_get ?n (nodes s1) = Some node"
        by (simp add: dict_get_dict_set)
      from 1 2 in1 True show ?thesis by (simp add: stays_def)
    qed
  next
    case (keep node0 q releases p rest)
    from keep(6) nd have 1: "dict_get ?n (nodes s1) = Some node_n" by simp
    have rec: "set (recorded s1 ?n) =
        (if ?n = ?m then insert r' (set (recorded s ?n)) else set (recorded s ?n))"
      by (simp add: keep(6) recorded_mark_new_requirement)
    from keep(6) have oc: "order_change s1 = order_change s" by simp
    show ?thesis
    proof (cases "?n = ?m")
      case False
      with rec have 2: "set (recorded s1 ?n) = set (recorded s ?n)" by simp
      from oc have 3: "elements_set (order_change s) \<subseteq> elements_set (order_change s1)"
        by simp
      from 1 2 3 show ?thesis by (rule other)
    next
      case True
      with nd keep(1) have same: "node_n = node0" by simp
      from rec True have r1: "set (recorded s1 ?n) = insert r' (set (recorded s ?n))"
        by simp
      show ?thesis
      proof (cases "pkg1_or_pkg node_n = Inr q0 \<and> keeps A s r")
        case False
        with dj oc 1 show ?thesis by (simp add: stays_def)
      next
        case kp: True
        then have "keeps A s r" ..
        then obtain node' q' rels p0 rest0 where
          k1: "dict_get ?n (nodes s) = Some node'" and k2: "pkg1_or_pkg node' = Inr q'"
          and k3: "A ?n = Inr rels"
          and k4: "satisfying_packages (r # recorded s ?n) rels = p0 # rest0"
          and k5: "version_key q' = version_key p0 \<or>
             (version_key p0 < version_key q' \<and> satisfies_all (r # recorded s ?n) q' \<and>
              r \<in> set (recorded s ?n))"
          by (rule keepsE)
        from k1 k2 nd same keep(2) have qq: "q' = q" by simp
        from k3 keep(3) True have rels: "rels = releases" by simp
        from satisfying_packages_hd [OF keep(4)]
        have sp: "satisfies_all (r' # recorded s ?m) p" by simp
        from keep(5) sp have sq: "satisfies_all (r' # recorded s ?m) q"
          by (auto simp: satisfies_all_version_key [of q p])
        from 1 same have d1: "dict_get ?n (nodes s1) = Some node0" by simp
        have "keeps A s1 r"
        proof (cases "version_key q = version_key p0")
          case vk: True
          from satisfying_packages_hd [OF k4]
          have "satisfies_all (r # recorded s ?n) p0" by simp
          moreover from vk have "satisfies_all (r' # recorded s ?m) q
              = satisfies_all (r' # recorded s ?m) p0"
            by (rule satisfies_all_version_key)
          ultimately have "satisfies_all (r # recorded s1 ?n) p0"
            using sq r1 True by (auto simp: satisfies_all_iff)
          moreover from r1 have "set (r # recorded s ?n) \<subseteq> set (r # recorded s1 ?n)"
            by auto
          ultimately have "\<exists>rest'. satisfying_packages (r # recorded s1 ?n) rels = p0 # rest'"
            using k4 by (blast intro: satisfying_packages_more)
          then obtain rest' where
            4: "satisfying_packages (r # recorded s1 ?n) rels = p0 # rest'" ..
          from vk have 5: "version_key q = version_key p0 \<or>
             (version_key p0 < version_key q \<and> satisfies_all (r # recorded s1 ?n) q \<and>
              r \<in> set (recorded s1 ?n))"
            by (rule disjI1)
          from d1 keep(2) k3 4 5 show ?thesis by (rule keepsI)
        next
          case False
          with k5 qq have rin: "r \<in> set (recorded s ?n)" by simp
          with r1 True have seq: "set (r # recorded s1 ?n) = set (r' # recorded s ?m)"
            by auto
          then have "satisfying_packages (r # recorded s1 ?n) releases
              = satisfying_packages (r' # recorded s ?m) releases"
            by (rule satisfying_packages_set)
          with keep(4) rels have 4: "satisfying_packages (r # recorded s1 ?n) rels = p # rest"
            by simp
          from seq have "satisfies_all (r # recorded s1 ?n) q
              = satisfies_all (r' # recorded s ?m) q"
            by (rule satisfies_all_set)
          with keep(5) rin r1 have 5: "version_key q = version_key p \<or>
             (version_key p < version_key q \<and> satisfies_all (r # recorded s1 ?n) q \<and>
              r \<in> set (recorded s1 ?n))"
            by auto
          from d1 keep(2) k3 4 5 show ?thesis by (rule keepsI)
        qed
        with kp 1 show ?thesis by (simp add: stays_def)
      qed
    qed
  qed
qed

lemma add_requirement_Suc_Inr:
  assumes "add_requirement (Suc k) A nodeps parent r s = Some (Inr b, s')"
  obtains ret node s1 where "add_requirement_head A parent r s = (Inr (ret, node), s1)"
    and "nodeps \<longrightarrow> s' = s1 \<and> b = ret"
    and "\<not> nodeps \<longrightarrow> (\<exists>p. pkg1_or_pkg node = Inr p \<and>
           for_requirements (add_requirement k A nodeps (Some (node_name node)))
             (get_requirements p (extras r) False) ret s1 = Some (Inr b, s') \<and>
           followed (Suc k) A nodeps parent r s =
             (req_name r, node) #
             followed_all (add_requirement k A nodeps (Some (node_name node)))
               (followed k A nodeps (Some (node_name node)))
               (get_requirements p (extras r) False) s1)"
proof -
  from assms obtain ret node s1 where
    h: "add_requirement_head A parent r s = (Inr (ret, node), s1)"
    by (auto split: prod.splits sum.splits)
  have nd: "nodeps \<longrightarrow> s' = s1 \<and> b = ret"
    and dp: "\<not> nodeps \<longrightarrow> (\<exists>p. pkg1_or_pkg node = Inr p \<and>
           for_requirements (add_requirement k A nodeps (Some (node_name node)))
             (get_requirements p (extras r) False) ret s1 = Some (Inr b, s') \<and>
           followed (Suc k) A nodeps parent r s =
             (req_name r, node) #
             followed_all (add_requirement k A nodeps (Some (node_name node)))
               (followed k A nodeps (Some (node_name node)))
               (get_requirements p (extras r) False) s1)"
    using assms h by (auto split: sum.splits if_splits)
  from h nd dp that show thesis by blast
qed

lemma add_requirement_stays:
  assumes "add_requirement k A nodeps parent r s = Some (Inr b, s')" and "stays A s v q"
  shows "stays A s' v q"
  using assms
  by (rule add_requirement_preserves [rotated]) (rule add_requirement_head_stays)

lemma for_requirements_stays:
  assumes "for_requirements (add_requirement k A nodeps parent) rs ret s = Some (Inr b, s')"
    and "stays A s v q"
  shows "stays A s' v q"
  using assms
  by (rule for_requirements_invariant) (rule add_requirement_stays)

lemma add_requirement_head_replay:
  assumes k: "keeps A F r" and rp: "replay A F u"
  obtains node where "dict_get (req_name r) (nodes F) = Some node"
    and "add_requirement_head A parent r u =
           (Inr (False, node), mark_new_requirement (req_name r) parent r u)"
proof -
  let ?n = "req_name r"
  from k obtain node q releases p rest where
    1: "dict_get ?n (nodes F) = Some node" and 2: "pkg1_or_pkg node = Inr q"
    and 3: "A ?n = Inr releases"
    and 4: "satisfying_packages (r # recorded F ?n) releases = p # rest"
    and 5: "version_key q = version_key p \<or>
         (version_key p < version_key q \<and> satisfies_all (r # recorded F ?n) q \<and>
          r \<in> set (recorded F ?n))"
    by (rule keepsE)
  from rp have nu: "nodes u = nodes F"
    and lo: "set (recorded F ?n) \<subseteq> set (recorded u ?n)"
    and each: "\<forall>v\<in>set (recorded u ?n).
         v \<in> set (recorded F ?n) \<or> (req_name v = ?n \<and> keeps A F v)"
    by (simp_all add: replay_def)
  from k 1 2 have qF: "satisfies_all (r # recorded F ?n) q" by (rule keeps_satisfies)
  have qv: "req_contains v (version q)" if v: "v \<in> set (recorded u ?n)" for v
  proof (cases "v \<in> set (recorded F ?n)")
    case True
    with qF show ?thesis by (simp add: satisfies_all_iff)
  next
    case False
    with each v have nv: "req_name v = ?n" and kv: "keeps A F v" by auto
    from 1 nv have "dict_get (req_name v) (nodes F) = Some node" by simp
    with kv have "satisfies_all (v # recorded F (req_name v)) q"
      using 2 by (rule keeps_satisfies)
    then show ?thesis by (simp add: satisfies_all_iff)
  qed
  from qF qv have qS: "satisfies_all (r # recorded u ?n) q"
    by (simp add: satisfies_all_iff)
  from 1 nu have d: "dict_get ?n (nodes u) = Some node" by simp
  have "\<exists>p' rest'. satisfying_packages (r # recorded u ?n) releases = p' # rest' \<and>
      (version_key q = version_key p' \<or>
       (version_key p' < version_key q \<and> satisfies_all (r # recorded u ?n) q))"
  proof (cases "\<exists>v pv restv. v \<in> set (r # recorded u ?n) \<and>
      satisfying_packages (v # recorded F ?n) releases = pv # restv \<and>
      version_key q = version_key pv")
    case True
    then obtain v pv restv where vin: "v \<in> set (r # recorded u ?n)"
      and sv: "satisfying_packages (v # recorded F ?n) releases = pv # restv"
      and vk: "version_key q = version_key pv"
      by blast
    from vk have "satisfies_all (r # recorded u ?n) q = satisfies_all (r # recorded u ?n) pv"
      by (rule satisfies_all_version_key)
    with qS have pS: "satisfies_all (r # recorded u ?n) pv" by simp
    from vin lo have sub: "set (v # recorded F ?n) \<subseteq> set (r # recorded u ?n)" by auto
    from sv sub pS have "\<exists>rest'. satisfying_packages (r # recorded u ?n) releases = pv # rest'"
      by (rule satisfying_packages_more)
    with vk show ?thesis by blast
  next
    case False
    with 4 have "version_key q \<noteq> version_key p" by auto
    with 5 have lt: "version_key p < version_key q" and rin: "r \<in> set (recorded F ?n)"
      by simp_all
    have "v \<in> set (recorded F ?n)" if v: "v \<in> set (recorded u ?n)" for v
    proof (rule ccontr)
      assume nin: "v \<notin> set (recorded F ?n)"
      with each v have nv: "req_name v = ?n" and kv: "keeps A F v" by auto
      from kv obtain node' q' rels pv restv where
        v1: "dict_get (req_name v) (nodes F) = Some node'" and v2: "pkg1_or_pkg node' = Inr q'"
        and v3: "A (req_name v) = Inr rels"
        and v4: "satisfying_packages (v # recorded F (req_name v)) rels = pv # restv"
        and v5: "version_key q' = version_key pv \<or>
           (version_key pv < version_key q' \<and>
            satisfies_all (v # recorded F (req_name v)) q' \<and>
            v \<in> set (recorded F (req_name v)))"
        by (rule keepsE)
      from v1 v2 1 2 nv have qq: "q' = q" by simp
      from v3 3 nv have rr: "rels = releases" by simp
      from v5 nin nv qq have "version_key q = version_key pv" by auto
      with v4 nv rr v have "\<exists>v pv restv. v \<in> set (r # recorded u ?n) \<and>
          satisfying_packages (v # recorded F ?n) releases = pv # restv \<and>
          version_key q = version_key pv"
        by auto
      with False show False ..
    qed
    with lo have "set (recorded u ?n) = set (recorded F ?n)" by auto
    then have seq: "set (r # recorded u ?n) = set (r # recorded F ?n)" by simp
    then have "satisfying_packages (r # recorded u ?n) releases
        = satisfying_packages (r # recorded F ?n) releases"
      by (rule satisfying_packages_set)
    with 4 have "satisfying_packages (r # recorded u ?n) releases = p # rest" by simp
    with lt qS show ?thesis by blast
  qed
  then obtain p' rest' where
    s': "satisfying_packages (r # recorded u ?n) releases = p' # rest'"
    and r': "version_key q = version_key p' \<or>
       (version_key p' < version_key q \<and> satisfies_all (r # recorded u ?n) q)"
    by blast
  from d 2 3 s' r' have "add_requirement_head A parent r u =
      (Inr (False, node), mark_new_requirement ?n parent r (touch_edges ?n u))"
    by (rule add_requirement_head_keep)
  then have "add_requirement_head A parent r u =
      (Inr (False, node), mark_new_requirement ?n parent r u)"
    by (simp add: mark_new_requirement_touch_edges)
  with 1 that show thesis by blast
qed

lemma replay_refl: "replay A F F"
  by (auto simp: replay_def)

lemma replay_mark_new_requirement:
  assumes "replay A F u" and "keeps A F r"
  shows "replay A F (mark_new_requirement (req_name r) parent r u)"
proof -
  let ?u = "mark_new_requirement (req_name r) parent r u"
  have "set (recorded F nm) \<subseteq> set (recorded ?u nm) \<and>
        (\<forall>v\<in>set (recorded ?u nm).
           v \<in> set (recorded F nm) \<or> (req_name v = nm \<and> keeps A F v))"
    for nm
  proof -
    from assms(1) have "set (recorded F nm) \<subseteq> set (recorded u nm)"
      and "\<forall>v\<in>set (recorded u nm).
           v \<in> set (recorded F nm) \<or> (req_name v = nm \<and> keeps A F v)"
      by (simp_all add: replay_def)
    with assms(2) show ?thesis
      by (auto simp: recorded_mark_new_requirement split: if_splits)
  qed
  with assms(1) show ?thesis by (simp add: replay_def)
qed

lemma for_requirements_replay:
  assumes IH: "\<And>parent r s b s1 parent' u.
        add_requirement k A False parent r s = Some (Inr b, s1) \<Longrightarrow>
        \<forall>nm. has_package nm s \<or> recorded s nm = [] \<Longrightarrow>
        list_all (still_effective F) (followed k A False parent r s) \<Longrightarrow>
        \<forall>v q. stays A s1 v q \<longrightarrow> stays A F v q \<Longrightarrow>
        replay A F u \<Longrightarrow>
        \<exists>u'. add_requirement k A False parent' r u = Some (Inr False, u') \<and> replay A F u'"
  shows "for_requirements (add_requirement k A False parent) rs ret s = Some (Inr b, s1) \<Longrightarrow>
        \<forall>nm. has_package nm s \<or> recorded s nm = [] \<Longrightarrow>
        list_all (still_effective F)
          (followed_all (add_requirement k A False parent) (followed k A False parent) rs s) \<Longrightarrow>
        \<forall>v q. stays A s1 v q \<longrightarrow> stays A F v q \<Longrightarrow>
        replay A F u \<Longrightarrow>
        \<exists>u'. for_requirements (add_requirement k A False parent') rs False u
               = Some (Inr False, u') \<and> replay A F u'"
proof (induction rs arbitrary: ret s u)
  case Nil
  then show ?case by simp
next
  case (Cons r rs)
  from Cons.prems(1) obtain b1 sm where
    f: "add_requirement k A False parent r s = Some (Inr b1, sm)"
    and rest: "for_requirements (add_requirement k A False parent) rs (ret \<or> b1) sm
                 = Some (Inr b, s1)"
    by (auto split: option.splits sum.splits prod.splits)
  from Cons.prems(3) f have here: "list_all (still_effective F) (followed k A False parent r s)"
    and later: "list_all (still_effective F)
          (followed_all (add_requirement k A False parent) (followed k A False parent) rs sm)"
    by simp_all
  from f Cons.prems(2) have known: "\<forall>nm. has_package nm sm \<or> recorded sm nm = []"
    by (rule add_requirement_known)
  have persists: "\<forall>v q. stays A sm v q \<longrightarrow> stays A F v q"
  proof (intro allI impI)
    fix v q
    assume "stays A sm v q"
    with rest have "stays A s1 v q" by (rule for_requirements_stays)
    with Cons.prems(4) show "stays A F v q" by blast
  qed
  from f Cons.prems(2) here persists Cons.prems(5)
  have "\<exists>u'. add_requirement k A False parent' r u = Some (Inr False, u') \<and> replay A F u'"
    by (rule IH)
  then obtain u1 where u1: "add_requirement k A False parent' r u = Some (Inr False, u1)"
    and ru1: "replay A F u1"
    by blast
  from rest known later Cons.prems(4) ru1
  have "\<exists>u'. for_requirements (add_requirement k A False parent') rs False u1
               = Some (Inr False, u') \<and> replay A F u'"
    by (rule Cons.IH)
  with u1 show ?case by simp
qed

lemma add_requirement_replay:
  "add_requirement k A nodeps parent r s = Some (Inr b, s') \<Longrightarrow>
   \<forall>nm. has_package nm s \<or> recorded s nm = [] \<Longrightarrow>
   list_all (still_effective F) (followed k A nodeps parent r s) \<Longrightarrow>
   \<forall>v q. stays A s' v q \<longrightarrow> stays A F v q \<Longrightarrow>
   nodeps \<longrightarrow> s' = F \<Longrightarrow>
   replay A F u \<Longrightarrow>
   \<exists>u'. add_requirement k A nodeps parent' r u = Some (Inr False, u') \<and> replay A F u'"
proof (induction k arbitrary: parent r s b s' parent' u)
  case 0
  then show ?case by simp
next
  case (Suc k)
  let ?n = "req_name r"
  let ?uh = "mark_new_requirement ?n parent' r u"
  from Suc.prems(1) obtain ret node s1 where
    h: "add_requirement_head A parent r s = (Inr (ret, node), s1)"
    and nd: "nodeps \<longrightarrow> s' = s1 \<and> b = ret"
    and dp: "\<not> nodeps \<longrightarrow> (\<exists>p. pkg1_or_pkg node = Inr p \<and>
           for_requirements (add_requirement k A nodeps (Some (node_name node)))
             (get_requirements p (extras r) False) ret s1 = Some (Inr b, s') \<and>
           followed (Suc k) A nodeps parent r s =
             (req_name r, node) #
             followed_all (add_requirement k A nodeps (Some (node_name node)))
               (followed k A nodeps (Some (node_name node)))
               (get_requirements p (extras r) False) s1)"
    by (rule add_requirement_Suc_Inr) blast
  from Suc.prems(2) have "has_package ?n s \<or> recorded s ?n = []" ..
  with h have "keeps A s1 r \<and> dict_get ?n (nodes s1) = Some node \<and>
         (\<exists>q. pkg1_or_pkg node = Inr q)"
    by (rule add_requirement_head_keeps)
  then obtain q0 where k1: "keeps A s1 r" and d1: "dict_get ?n (nodes s1) = Some node"
    and q0: "pkg1_or_pkg node = Inr q0"
    by blast
  from k1 d1 q0 have st1: "stays A s1 r q0" by (simp add: stays_def)
  have kF: "keeps A F r"
  proof (cases nodeps)
    case True
    with nd Suc.prems(5) k1 show ?thesis by simp
  next
    case False
    with dp obtain p where
      pp: "pkg1_or_pkg node = Inr p"
      and run': "for_requirements (add_requirement k A nodeps (Some (node_name node)))
              (get_requirements p (extras r) False) ret s1 = Some (Inr b, s')"
      and fl': "followed (Suc k) A nodeps parent r s =
             (req_name r, node) #
             followed_all (add_requirement k A nodeps (Some (node_name node)))
               (followed k A nodeps (Some (node_name node)))
               (get_requirements p (extras r) False) s1"
      by blast
    from run' st1 have "stays A s' r q0" by (rule for_requirements_stays)
    with Suc.prems(4) have stF: "stays A F r q0" by blast
    from Suc.prems(3) fl' have "still_effective F (?n, node)" by simp
    with q0 stF show ?thesis
      by (auto simp: still_effective_def stays_def split: option.splits)
  qed
  from kF Suc.prems(6) obtain nodeF where nF: "dict_get ?n (nodes F) = Some nodeF"
    and hu: "add_requirement_head A parent' r u = (Inr (False, nodeF), ?uh)"
    by (rule add_requirement_head_replay)
  from Suc.prems(6) kF have ru: "replay A F ?uh" by (rule replay_mark_new_requirement)
  show ?case
  proof (cases nodeps)
    case True
    with hu ru show ?thesis by simp
  next
    case False
    with dp obtain p where
      pp: "pkg1_or_pkg node = Inr p"
      and run': "for_requirements (add_requirement k A nodeps (Some (node_name node)))
              (get_requirements p (extras r) False) ret s1 = Some (Inr b, s')"
      and fl': "followed (Suc k) A nodeps parent r s =
             (req_name r, node) #
             followed_all (add_requirement k A nodeps (Some (node_name node)))
               (followed k A nodeps (Some (node_name node)))
               (get_requirements p (extras r) False) s1"
      by blast
    from Suc.prems(3) fl' have se: "still_effective F (req_name r, node)"
      and rest: "list_all (still_effective F)
             (followed_all (add_requirement k A nodeps (Some (node_name node)))
               (followed k A nodeps (Some (node_name node)))
               (get_requirements p (extras r) False) s1)"
      by simp_all
    from se nF pp have pF: "pkg1_or_pkg nodeF = Inr p"
      by (simp add: still_effective_def)
    from h Suc.prems(2) have known: "\<forall>nm. has_package nm s1 \<or> recorded s1 nm = []"
      by (rule add_requirement_head_known)
    from False have nf: "nodeps = False" by simp
    have "\<exists>u'. for_requirements (add_requirement k A False (Some (node_name nodeF)))
               (get_requirements p (extras r) False) False ?uh
               = Some (Inr False, u') \<and> replay A F u'"
      using run' [unfolded nf] known rest [unfolded nf] Suc.prems(4) ru
    proof (rule for_requirements_replay [rotated])
      fix parent r s b s1 parent' u
      assume a1: "add_requirement k A False parent r s = Some (Inr b, s1)"
        and a3: "\<forall>nm. has_package nm s \<or> recorded s nm = []"
        and a4: "list_all (still_effective F) (followed k A False parent r s)"
        and a5: "\<forall>v q. stays A s1 v q \<longrightarrow> stays A F v q"
        and a7: "replay A F u"
      have a6: "nodeps \<longrightarrow> s1 = F" using nf by simp
      from a1 [folded nf] a3 a4 [folded nf] a5 a6 a7
      have "\<exists>u'. add_requirement k A nodeps parent' r u = Some (Inr False, u') \<and>
             replay A F u'"
        by (rule Suc.IH)
      then show "\<exists>u'. add_requirement k A False parent' r u = Some (Inr False, u') \<and>
             replay A F u'"
        by (simp add: nf)
    qed
    with hu pF nf show ?thesis by simp
  qed
qed

lemma add_fabric_twice:
  "add_requirement 3 example_available False None (parse ''fabric'' []) graph_fabric
     = Some (Inr False, graph_fabric_twice)"
  by (simp add: eval_nat_numeral graph_fabric_def graph_fabric_twice_def example_defs model_defs)

lemma followed_fabric:
  "list_all (still_effective graph_fabric)
     (followed 3 example_available False None (parse ''fabric'' []) example_graph)"
  by (simp add: eval_nat_numeral graph_fabric_def still_effective_def example_defs model_defs)

lemma followed_tool_net:
  "\<not> list_all (still_effective graph_tool_once)
     (followed 3 tool_available False None tool_net tool_graph)"
  by (simp add: eval_nat_numeral graph_tool_once_def still_effective_def tool_defs model_defs)

lemma add_tool_net_twice:
  "map_option fst (add_requirement 3 tool_available False None tool_net graph_tool_once)
     = Some (Inr True)"
  by (simp add: eval_nat_numeral graph_tool_once_def tool_defs model_defs)

lemma add_dep_twice:
  "map_option fst
     (add_requirement 1 extras_available False None (parse ''dep'' [(LT, [2])]) graph_dep)
     = Some (Inl (RequirementNotFound
         (Joined [parse ''dep'' [(LT, [2])], parse ''dep'' [(GE, [2])]]) None))"
  by (simp add: graph_dep_def extras_defs model_defs)

section \<open>The claims\<close>

subsection \<open>The order sequence\<close>

text \<open>
  C5, at a failing input. The first \<open>push\<close> of a name appends it. A second \<open>push\<close> of the
  same name removes it from the list and then raises \<open>KeyError\<close>: the name is not appended
  again, and the call does not complete.
\<close>

theorem push_twice_raises:
  "push ''fabric'' Order_init
     = (Inr (), \<lparr>elements = [''fabric''], elements_set = {''fabric''}\<rparr>)
   \<and> push ''fabric'' \<lparr>elements = [''fabric''], elements_set = {''fabric''}\<rparr>
     = (Inl KeyError, \<lparr>elements = [], elements_set = {''fabric''}\<rparr>)"
  by (simp add: push_def list_remove_def Order_init_def)

text \<open>
  C6, at a failing input. With \<open>reverse\<close> set, as \<open>get_marks\<close> sets it for the installs,
  an element whose key is not in the sequence gets the rank 99999 and is sorted to the
  head of the list, not to its tail.
\<close>

theorem rearrange_list_reverse_unknown_first:
  "rearrange_list \<lparr>elements = [''paramiko''], elements_set = {''paramiko''}\<rparr>
     [paramiko_09, pycrypto_23] name True = [pycrypto_23, paramiko_09]"
  by (simp add: example_defs model_defs)

subsection \<open>The scenarios of the demonstration\<close>

text \<open>
  C8. On the installed state of the demonstration, \<open>add_requirement("fabric")\<close> returns
  true, for every recursion bound of at least three, and \<open>get_marks\<close> then gives
  \<open>install = [paramiko-0.9]\<close>, \<open>change = [(fabric-0.9.1, fabric-0.9.2)]\<close> and
  \<open>remove = []\<close>. The node of \<open>pycrypto\<close> keeps \<open>pycrypto-2.1\<close> with nothing pending, and
  that version satisfies \<open>pycrypto<=2.1\<close>, the constraint of \<open>fabric-0.9.2\<close>.
\<close>

theorem add_requirement_fabric_plan:
  "add_requirement (3 + k) example_available False None (parse ''fabric'' []) example_graph
     = Some (Inr True, graph_fabric)
   \<and> get_marks graph_fabric
     = Inr \<lparr>install = [paramiko_09], remove = [], change = [(fabric_091, fabric_092)]\<rparr>
   \<and> dict_get ''pycrypto'' (nodes graph_fabric)
     = Some \<lparr>node_name = ''pycrypto'', pkg = Some pycrypto_21, pkg1 = PNone\<rparr>
   \<and> req_contains (parse ''pycrypto'' [(LE, [2, 1])]) (version pycrypto_21)"
proof -
  have "add_requirement (3 + k) example_available False None (parse ''fabric'' []) example_graph
     = Some (Inr True, graph_fabric)"
    by (rule add_requirement_mono [OF add_fabric])
  moreover have "get_marks graph_fabric
     = Inr \<lparr>install = [paramiko_09], remove = [], change = [(fabric_091, fabric_092)]\<rparr>"
    by (simp add: graph_fabric_def example_defs model_defs)
  moreover have "dict_get ''pycrypto'' (nodes graph_fabric)
     = Some \<lparr>node_name = ''pycrypto'', pkg = Some pycrypto_21, pkg1 = PNone\<rparr>"
    by (simp add: graph_fabric_def dict_get_def)
  moreover have "req_contains (parse ''pycrypto'' [(LE, [2, 1])]) (version pycrypto_21)"
    by (simp add: example_defs model_defs)
  ultimately show ?thesis by simp
qed

text \<open>
  C1, refuted as stated. After \<open>add_requirement("pycrypto>=2.3")\<close>, the call
  \<open>add_requirement("fabric")\<close> does not raise \<open>RequirementNotFound\<close>: it ends with a
  \<open>KeyError\<close>.
\<close>

theorem fabric_after_pycrypto_23_counterexample:
  "add_requirement 1 example_available False None (parse ''pycrypto'' [(GE, [2, 3])]) example_graph
     = Some (Inr True, graph_pycrypto_23)
   \<and> map_option fst
       (add_requirement 2 example_available False None (parse ''fabric'' []) graph_pycrypto_23)
     = Some (Inl KeyError)"
  by (simp add: add_pycrypto_23)
     (simp add: eval_nat_numeral graph_pycrypto_23_def example_defs model_defs)

text \<open>
  C1, as amended. \<open>add_requirement("pycrypto>=2.3")\<close> on the installed state succeeds and
  marks the change \<open>pycrypto-2.1 -> pycrypto-2.3\<close>, with no installs and no removals. It
  records no edge for the user's requirement: \<open>edges['pycrypto']\<close> still holds only the
  \<open>pycrypto\<close> of \<open>fabric-0.9.1\<close>. So when \<open>add_requirement("fabric")\<close> then comes to
  \<open>pycrypto<=2.1\<close> of \<open>fabric-0.9.2\<close>, the combined constraint set is that requirement
  with the recorded \<open>pycrypto\<close>; it admits \<open>pycrypto-2.1\<close>, and the call does not raise
  \<open>RequirementNotFound\<close>, whatever the recursion bound.
\<close>

theorem pycrypto_23_then_fabric:
  "add_requirement (1 + k) example_available False None (parse ''pycrypto'' [(GE, [2, 3])])
       example_graph = Some (Inr True, graph_pycrypto_23)
   \<and> get_marks graph_pycrypto_23
     = Inr \<lparr>install = [], remove = [], change = [(pycrypto_21, pycrypto_23)]\<rparr>
   \<and> recorded graph_pycrypto_23 ''pycrypto'' = [parse ''pycrypto'' []]
   \<and> to_satisfy
       (snd (add_requirement_head example_available None (parse ''fabric'' []) graph_pycrypto_23))
       (parse ''pycrypto'' [(LE, [2, 1])])
     = [parse ''pycrypto'' [(LE, [2, 1])], parse ''pycrypto'' []]
   \<and> satisfying_packages [parse ''pycrypto'' [(LE, [2, 1])], parse ''pycrypto'' []]
       [pycrypto_23, pycrypto_21] = [pycrypto_21]
   \<and> not_found_raised
       (add_requirement j example_available False None (parse ''fabric'' []) graph_pycrypto_23)
     = None"
proof -
  have 1: "add_requirement (1 + k) example_available False None
      (parse ''pycrypto'' [(GE, [2, 3])]) example_graph = Some (Inr True, graph_pycrypto_23)"
    by (rule add_requirement_mono [OF add_pycrypto_23])
  have 2: "get_marks graph_pycrypto_23
     = Inr \<lparr>install = [], remove = [], change = [(pycrypto_21, pycrypto_23)]\<rparr>"
    by (simp add: graph_pycrypto_23_def example_defs model_defs)
  have 3: "recorded graph_pycrypto_23 ''pycrypto'' = [parse ''pycrypto'' []]"
    by (simp add: graph_pycrypto_23_def model_defs)
  have 4: "to_satisfy
       (snd (add_requirement_head example_available None (parse ''fabric'' []) graph_pycrypto_23))
       (parse ''pycrypto'' [(LE, [2, 1])])
     = [parse ''pycrypto'' [(LE, [2, 1])], parse ''pycrypto'' []]"
    by (simp add: graph_pycrypto_23_def example_defs model_defs)
  have 5: "satisfying_packages [parse ''pycrypto'' [(LE, [2, 1])], parse ''pycrypto'' []]
       [pycrypto_23, pycrypto_21] = [pycrypto_21]"
    by (simp add: example_defs model_defs)
  have 6: "not_found_raised
       (add_requirement j example_available False None (parse ''fabric'' []) graph_pycrypto_23)
     = None"
  proof (cases j)
    case 0
    then show ?thesis by (simp add: not_found_raised_def)
  next
    case (Suc i)
    show ?thesis
    proof (cases i)
      case 0
      with Suc show ?thesis
        by (simp add: not_found_raised_def graph_pycrypto_23_def example_defs model_defs)
    next
      case (Suc k)
      have "\<exists>s. add_requirement 2 example_available False None (parse ''fabric'' [])
          graph_pycrypto_23 = Some (Inl KeyError, s)"
        by (simp add: eval_nat_numeral graph_pycrypto_23_def example_defs model_defs)
      then obtain s where "add_requirement 2 example_available False None (parse ''fabric'' [])
          graph_pycrypto_23 = Some (Inl KeyError, s)" ..
      then have "add_requirement (2 + k) example_available False None (parse ''fabric'' [])
          graph_pycrypto_23 = Some (Inl KeyError, s)"
        by (rule add_requirement_mono)
      with \<open>j = Suc i\<close> \<open>i = Suc k\<close> show ?thesis
        by (simp add: not_found_raised_def)
    qed
  qed
  from 1 2 3 4 5 6 show ?thesis by blast
qed

text \<open>
  C2, at the claim's own scenario. \<open>remove_package("pycrypto")\<close> on the installed state
  marks \<open>pycrypto\<close> and then its dependent \<open>fabric\<close>, pushing the names in that order;
  \<open>get_marks\<close> sorts the removals forwards in that order, so the plan removes
  \<open>pycrypto-2.1\<close> before \<open>fabric-0.9.1\<close>: the dependency before its dependent.
\<close>

theorem remove_pycrypto_plan:
  "remove_package (2 + k) (Some ''pycrypto'') False example_graph = Some (Inr (), graph_removed)
   \<and> get_marks graph_removed
     = Inr \<lparr>install = [], remove = [pycrypto_21, fabric_091], change = []\<rparr>"
proof -
  have "remove_package (2 + k) (Some ''pycrypto'') False example_graph
     = Some (Inr (), graph_removed)"
    by (rule remove_package_mono [OF remove_pycrypto])
  moreover have "get_marks graph_removed
     = Inr \<lparr>install = [], remove = [pycrypto_21, fabric_091], change = []\<rparr>"
    by (simp add: graph_removed_def example_defs model_defs)
  ultimately show ?thesis by simp
qed

subsection \<open>Edges and node keys\<close>

text \<open>
  C4, at a failing input. The loaded graph of the demonstration has both ends of every
  edge among its nodes. \<open>add_requirement("pycrypto==2.1")\<close>, called by the user (no
  parent), finds the installed version suitable and records the requirement under
  \<open>edges['pycrypto'][None]\<close>: \<open>None\<close> is no key of \<open>nodes\<close>. A later
  \<open>remove_package("pycrypto")\<close> cascades to that key and fails the assertion of
  \<open>_mark_for_removal\<close>. The loader breaks the property as well: its third pass records
  \<open>edges['dep']['app']\<close> for the extra of \<open>lib\<close>, and \<open>dep\<close> is not installed.
\<close>

theorem add_requirement_records_edge_to_None:
  "edges_in_nodes example_graph
   \<and> \<not> edges_in_nodes extras_graph
   \<and> add_requirement (1 + k) example_available False None (parse ''pycrypto'' [(EQ, [2, 1])])
       example_graph = Some (Inr False, graph_pycrypto_eq)
   \<and> \<not> edges_in_nodes graph_pycrypto_eq
   \<and> map_option fst (remove_package (2 + k) (Some ''pycrypto'') False graph_pycrypto_eq)
     = Some (Inl AssertionError)"
proof -
  have "edges_in_nodes example_graph"
    by (simp add: example_graph_eq edges_in_nodes_def has_package_def dict_get_def)
  moreover have "\<not> edges_in_nodes extras_graph"
    by (simp add: extras_graph_eq edges_in_nodes_def has_package_def dict_get_def)
  moreover have "add_requirement (1 + k) example_available False None
      (parse ''pycrypto'' [(EQ, [2, 1])]) example_graph = Some (Inr False, graph_pycrypto_eq)"
    by (rule add_requirement_mono [OF add_pycrypto_eq])
  moreover have "\<not> edges_in_nodes graph_pycrypto_eq"
    by (simp add: graph_pycrypto_eq_def edges_in_nodes_def has_package_def dict_get_def)
  moreover have "\<exists>s. remove_package 2 (Some ''pycrypto'') False graph_pycrypto_eq
      = Some (Inl AssertionError, s)"
    by (simp add: eval_nat_numeral graph_pycrypto_eq_def example_defs model_defs)
  then obtain s where "remove_package 2 (Some ''pycrypto'') False graph_pycrypto_eq
      = Some (Inl AssertionError, s)" ..
  then have "remove_package (2 + k) (Some ''pycrypto'') False graph_pycrypto_eq
      = Some (Inl AssertionError, s)"
    by (rule remove_package_mono)
  then have "map_option fst (remove_package (2 + k) (Some ''pycrypto'') False graph_pycrypto_eq)
      = Some (Inl AssertionError)"
    by simp
  ultimately show ?thesis by simp
qed

subsection \<open>Calling \<open>add_requirement\<close> twice\<close>

text \<open>
  C3, refuted as stated, in each of its parts. The state is not left equal:
  \<open>add_requirement("fabric")\<close> on the installed state of the demonstration marks
  \<open>fabric\<close> for change and \<open>paramiko\<close> for install and returns true; called a second
  time it returns false and follows the requirements of \<open>fabric-0.9.2\<close> again, which
  records them again, so that the requirements recorded for \<open>paramiko\<close> are
  \<open>[paramiko, paramiko]\<close> where they were \<open>[paramiko]\<close>. The second call does not
  always return false: where \<open>tool-2.0\<close> is installed, \<open>add_requirement("tool[net]")\<close>
  returns true, having installed \<open>http\<close> and changed \<open>tool\<close> to \<open>1.0\<close> after it had
  followed the requirements of \<open>tool-2.0\<close>; called a second time it returns true again,
  since the extra of \<open>tool-1.0\<close> requires \<open>urls\<close>. And the second call does not always
  return: where the loader has recorded \<open>dep>=2\<close> for the name \<open>dep\<close> that has no node,
  \<open>add_requirement("dep<2")\<close> installs \<open>dep-1.0\<close> and returns true; called a second
  time it raises \<open>RequirementNotFound\<close>, the recorded requirement now being counted.
\<close>

theorem add_requirement_twice_counterexample:
  "add_requirement 3 example_available False None (parse ''fabric'' []) example_graph
     = Some (Inr True, graph_fabric)
   \<and> add_requirement 3 example_available False None (parse ''fabric'' []) graph_fabric
     = Some (Inr False, graph_fabric_twice)
   \<and> graph_fabric_twice \<noteq> graph_fabric
   \<and> recorded graph_fabric ''paramiko'' = [parse ''paramiko'' []]
   \<and> recorded graph_fabric_twice ''paramiko'' = [parse ''paramiko'' [], parse ''paramiko'' []]
   \<and> add_requirement 3 tool_available False None tool_net tool_graph
     = Some (Inr True, graph_tool_once)
   \<and> map_option fst (add_requirement 3 tool_available False None tool_net graph_tool_once)
     = Some (Inr True)
   \<and> add_requirement 1 extras_available False None (parse ''dep'' [(LT, [2])]) extras_graph
     = Some (Inr True, graph_dep)
   \<and> map_option fst
       (add_requirement 1 extras_available False None (parse ''dep'' [(LT, [2])]) graph_dep)
     = Some (Inl (RequirementNotFound
         (Joined [parse ''dep'' [(LT, [2])], parse ''dep'' [(GE, [2])]]) None))"
proof -
  have "graph_fabric_twice \<noteq> graph_fabric"
    by (simp add: graph_fabric_twice_def graph_fabric_def)
  moreover have "recorded graph_fabric ''paramiko'' = [parse ''paramiko'' []]"
    by (simp add: graph_fabric_def model_defs)
  moreover have "recorded graph_fabric_twice ''paramiko''
      = [parse ''paramiko'' [], parse ''paramiko'' []]"
    by (simp add: graph_fabric_twice_def model_defs)
  ultimately show ?thesis
    using add_fabric add_fabric_twice add_tool_net add_tool_net_twice
      add_dep [of False] add_dep_twice
    by blast
qed

text \<open>
  C3, as amended. Let \<open>add_requirement(r)\<close> return normally from a graph that records no
  requirement for a name without a node, and let every node whose requirements the call
  followed still stand, when the call returns, for the distribution whose requirements
  were followed. Then a second call with the same arguments returns false and leaves the
  nodes and the three order sequences as the first call left them. The edges are not left
  equal: requirements are recorded again, and none that was recorded is lost. With
  \<open>nodeps\<close> no requirements are followed, and the second condition holds of itself.
\<close>

theorem add_requirement_twice:
  assumes "add_requirement k A nodeps parent r s = Some (Inr b, s1)"
    and "edges_known s"
    and "list_all (still_effective s1) (followed k A nodeps parent r s)"
  shows "\<exists>s2. add_requirement k A nodeps parent r s1 = Some (Inr False, s2)
           \<and> nodes s2 = nodes s1
           \<and> order_new s2 = order_new s1
           \<and> order_change s2 = order_change s1
           \<and> order_remove s2 = order_remove s1
           \<and> (\<forall>nm. set (recorded s1 nm) \<subseteq> set (recorded s2 nm))"
proof -
  from assms(2) have known: "\<forall>nm. has_package nm s \<or> recorded s nm = []"
    by (simp add: edges_known_recorded)
  have "\<exists>u'. add_requirement k A nodeps parent r s1 = Some (Inr False, u') \<and> replay A s1 u'"
    using assms(1) known assms(3) _ _ replay_refl
    by (rule add_requirement_replay) simp_all
  then obtain s2 where 2: "add_requirement k A nodeps parent r s1 = Some (Inr False, s2)"
    and rp: "replay A s1 s2"
    by blast
  from rp have "nodes s2 = nodes s1 \<and> order_new s2 = order_new s1
           \<and> order_change s2 = order_change s1 \<and> order_remove s2 = order_remove s1
           \<and> (\<forall>nm. set (recorded s1 nm) \<subseteq> set (recorded s2 nm))"
    by (simp add: replay_def)
  with 2 show ?thesis by blast
qed

text \<open>
  Witness for C3: \<open>add_requirement("fabric")\<close> on the installed state of the
  demonstration, which follows the requirements of \<open>fabric-0.9.2\<close>, of \<open>pycrypto-2.1\<close>
  and of \<open>paramiko-0.9\<close>, and the same call again.
\<close>

theorem add_requirement_twice_witness:
  "add_requirement 3 example_available False None (parse ''fabric'' []) example_graph
     = Some (Inr True, graph_fabric)
   \<and> edges_known example_graph
   \<and> list_all (still_effective graph_fabric)
       (followed 3 example_available False None (parse ''fabric'' []) example_graph)
   \<and> (\<exists>s2. add_requirement 3 example_available False None (parse ''fabric'' []) graph_fabric
              = Some (Inr False, s2)
           \<and> nodes s2 = nodes graph_fabric
           \<and> order_new s2 = order_new graph_fabric
           \<and> order_change s2 = order_change graph_fabric
           \<and> order_remove s2 = order_remove graph_fabric
           \<and> (\<forall>nm. set (recorded graph_fabric nm) \<subseteq> set (recorded s2 nm)))"
proof -
  have ek: "edges_known example_graph"
    by (simp add: example_graph_eq edges_known_def has_package_def dict_get_def)
  from add_requirement_twice [OF add_fabric ek followed_fabric] add_fabric ek followed_fabric
  show ?thesis by blast
qed

subsection \<open>The effective distribution after \<open>add_requirement\<close>\<close>

text \<open>
  C7, refuted as stated. The loader records \<open>edges['dep']['app'] = [dep>=2]\<close> for the
  extra of \<open>lib\<close> although \<open>dep\<close> is not installed. \<open>add_requirement("dep<2")\<close> then
  returns normally with \<open>dep-1.0\<close> marked for install, which does not satisfy the
  recorded \<open>dep>=2\<close>.
\<close>

theorem add_requirement_dep_counterexample:
  "add_requirement 1 extras_available False None (parse ''dep'' [(LT, [2])]) extras_graph
     = Some (Inr True, graph_dep)
   \<and> dict_get ''dep'' (nodes graph_dep)
     = Some \<lparr>node_name = ''dep'', pkg = None, pkg1 = PDist dep_10\<rparr>
   \<and> recorded graph_dep ''dep'' = [parse ''dep'' [(GE, [2])]]
   \<and> \<not> effective_satisfies graph_dep ''dep'' (recorded graph_dep ''dep'')"
  by (simp add: add_dep)
     (simp add: graph_dep_def effective_satisfies_def extras_defs model_defs)

text \<open>
  C7, as amended. Let the graph record no requirement for a name that has no node.
  Whenever \<open>add_requirement(r)\<close> returns normally, the node of the name of \<open>r\<close> exists and
  the distribution it stands for (the pending one if present, else the installed one)
  satisfies \<open>r\<close> and every requirement recorded in \<open>edges[name]\<close> at return time.
\<close>

theorem add_requirement_effective:
  assumes "add_requirement k A nodeps parent r s = Some (Inr b, s')"
    and "edges_known s"
  shows "effective_satisfies s' (req_name r) (r # recorded s' (req_name r))"
proof -
  let ?n = "req_name r"
  let ?Q = "\<lambda>s. settled s ?n [r]"
  from assms(1) obtain k' where k: "k = Suc k'"
    by (cases k) auto
  from assms(1) k obtain ret node s1 where
    h: "add_requirement_head A parent r s = (Inr (ret, node), s1)"
    by (auto split: prod.splits sum.splits)
  from assms(2) have "has_package ?n s \<or> recorded s ?n = []"
    by (rule edges_known_recorded)
  with h have q1: "?Q s1" by (rule add_requirement_head_settles)
  have "?Q s'"
  proof (cases nodeps)
    case True
    with assms(1) k h have "s' = s1" by simp
    with q1 show ?thesis by simp
  next
    case False
    with assms(1) k h obtain p where
      run: "for_requirements (add_requirement k' A nodeps (Some (node_name node)))
              (get_requirements p (extras r) False) ret s1 = Some (Inr b, s')"
      by (auto split: sum.splits)
    from run q1 show ?thesis
    proof (rule for_requirements_invariant)
      fix r' t b' t'
      assume "add_requirement k' A nodeps (Some (node_name node)) r' t = Some (Inr b', t')"
        and "settled t ?n [r]"
      then show "settled t' ?n [r]"
        by (rule add_requirement_preserves [rotated]) (rule add_requirement_head_settled)
    qed
  qed
  then show ?thesis
    by (auto simp: settled_def effective_satisfies_def satisfies_all_iff
        split: option.splits sum.splits)
qed

text \<open>
  Witness for C7: \<open>add_requirement("pycrypto>=2.3")\<close> on the installed state of the
  demonstration; \<open>pycrypto-2.3\<close>, now pending, satisfies the requirement and the
  \<open>pycrypto\<close> recorded for \<open>fabric\<close>.
\<close>

theorem add_requirement_effective_witness:
  "add_requirement 1 example_available False None (parse ''pycrypto'' [(GE, [2, 3])]) example_graph
     = Some (Inr True, graph_pycrypto_23)
   \<and> edges_known example_graph
   \<and> recorded graph_pycrypto_23 (req_name (parse ''pycrypto'' [(GE, [2, 3])]))
     = [parse ''pycrypto'' []]
   \<and> effective_satisfies graph_pycrypto_23 (req_name (parse ''pycrypto'' [(GE, [2, 3])]))
       (parse ''pycrypto'' [(GE, [2, 3])]
          # recorded graph_pycrypto_23 (req_name (parse ''pycrypto'' [(GE, [2, 3])])))"
proof -
  have ek: "edges_known example_graph"
    by (simp add: example_graph_eq edges_known_def has_package_def dict_get_def)
  have rec: "recorded graph_pycrypto_23 (req_name (parse ''pycrypto'' [(GE, [2, 3])]))
     = [parse ''pycrypto'' []]"
    by (simp add: graph_pycrypto_23_def model_defs)
  from add_requirement_effective [OF add_pycrypto_23 ek] add_pycrypto_23 ek rec
  show ?thesis by blast
qed

subsection \<open>When \<open>RequirementNotFound\<close> is raised\<close>

text \<open>
  C9, refuted as stated. In the graph loaded from the installed state with the extra of
  \<open>lib\<close>, which records \<open>dep>=2\<close> for \<open>dep\<close>, no release of \<open>dep\<close> satisfies both
  \<open>dep<2\<close> and the requirement \<open>dep>=2\<close> recorded in \<open>edges['dep']\<close>, yet
  \<open>add_requirement("dep<2")\<close> raises no \<open>RequirementNotFound\<close>.
\<close>

theorem not_found_dep_counterexample:
  "extras_available ''dep'' = Inr [dep_10]
   \<and> satisfying_packages (parse ''dep'' [(LT, [2])] # recorded extras_graph ''dep'') [dep_10] = []
   \<and> not_found_raised
       (add_requirement 1 extras_available True None (parse ''dep'' [(LT, [2])]) extras_graph)
     = None"
  by (simp add: add_dep not_found_raised_def)
     (simp add: extras_graph_eq extras_defs model_defs)

text \<open>
  C9, as amended. Let the repository return the list \<open>releases\<close> for the name of \<open>r\<close>.
  The call \<open>add_requirement(r)\<close> itself (run with \<open>nodeps\<close>, so that no transitive call
  can raise) ends with \<open>RequirementNotFound\<close> exactly when \<open>releases\<close> is empty, then
  with \<open>r\<close> and the parent, or when no release satisfies every requirement of the
  combined constraint set, then with that set and the parent; with or without \<open>nodeps\<close>
  it raises that error whenever one of the two holds. The combined constraint set is
  \<open>to_satisfy\<close>: \<open>r\<close>, and the requirements recorded in \<open>edges[name]\<close> only when the name
  already has a node.
\<close>

theorem add_requirement_not_found:
  assumes "A (req_name r) = Inr releases"
  shows "not_found_raised (add_requirement (Suc k) A True parent r s)
           = not_found releases parent r s
         \<and> (not_found releases parent r s \<noteq> None \<longrightarrow>
              not_found_raised (add_requirement (Suc k) A nodeps parent r s)
                = not_found releases parent r s)"
proof (cases "add_requirement_head A parent r s")
  case (Pair res s1)
  have h: "not_found_raised (case add_requirement_head A parent r s of
            (Inl e, s1) \<Rightarrow> Some (Inl e :: error + bool, s1) | (Inr x, s1) \<Rightarrow> None)
         = not_found releases parent r s"
    using assms by (rule add_requirement_head_not_found)
  show ?thesis
  proof (cases res)
    case (Inl e)
    with Pair h show ?thesis by simp
  next
    case (Inr x)
    with Pair h have "not_found releases parent r s = None"
      by (simp add: not_found_raised_def)
    with Pair Inr show ?thesis
      by (cases x) (simp add: not_found_raised_def)
  qed
qed

text \<open>
  Witness for C9: \<open>add_requirement("pycrypto<2.0")\<close> on the installed state of the
  demonstration. Neither release satisfies the requirement, and the error carries the
  combined constraint set (with the \<open>pycrypto\<close> that \<open>fabric-0.9.1\<close> recorded) and no
  parent.
\<close>

theorem add_requirement_not_found_witness:
  "example_available (req_name (parse ''pycrypto'' [(LT, [2, 0])]))
     = Inr [pycrypto_23, pycrypto_21]
   \<and> not_found [pycrypto_23, pycrypto_21] None (parse ''pycrypto'' [(LT, [2, 0])]) example_graph
     = Some (RequirementNotFound
         (Joined [parse ''pycrypto'' [(LT, [2, 0])], parse ''pycrypto'' []]) None)
   \<and> not_found_raised
       (add_requirement (Suc 0) example_available True None (parse ''pycrypto'' [(LT, [2, 0])])
          example_graph)
     = Some (RequirementNotFound
         (Joined [parse ''pycrypto'' [(LT, [2, 0])], parse ''pycrypto'' []]) None)
   \<and> not_found_raised
       (add_requirement (Suc 0) example_available False None (parse ''pycrypto'' [(LT, [2, 0])])
          example_graph)
     = Some (RequirementNotFound
         (Joined [parse ''pycrypto'' [(LT, [2, 0])], parse ''pycrypto'' []]) None)"
proof -
  have a: "example_available (req_name (parse ''pycrypto'' [(LT, [2, 0])]))
      = Inr [pycrypto_23, pycrypto_21]"
    by (simp add: example_defs model_defs)
  have n: "not_found [pycrypto_23, pycrypto_21] None (parse ''pycrypto'' [(LT, [2, 0])])
      example_graph
     = Some (RequirementNotFound
         (Joined [parse ''pycrypto'' [(LT, [2, 0])], parse ''pycrypto'' []]) None)"
    by (simp add: not_found_def example_graph_eq example_defs model_defs)
  from add_requirement_not_found
    [where A = example_available and r = "parse ''pycrypto'' [(LT, [2, 0])]"
       and releases = "[pycrypto_23, pycrypto_21]" and k = 0 and parent = None
       and s = example_graph and nodeps = False, OF a] n a
  show ?thesis by simp
qed

subsection \<open>A node marked for install can not be changed\<close>

text \<open>
  C10. Let the node of the name of \<open>r\<close> be marked for install (\<open>pkg\<close> is \<open>None\<close>, \<open>pkg1\<close>
  is \<open>q\<close>), let the repository list its releases in descending order, \<open>q\<close> among them,
  and let the first release that satisfies the combined constraint set have a version
  key other than that of \<open>q\<close>. Then \<open>add_requirement(r)\<close> reaches \<open>_mark_for_change\<close>,
  which reads \<open>node.pkg.version_key\<close> on \<open>None\<close>: the call ends with an
  \<open>AttributeError\<close>, not with \<open>RequirementNotFound\<close>, and marks nothing.
\<close>

theorem add_requirement_on_install_node:
  assumes "dict_get (req_name r) (nodes s) = Some node"
    and "pkg node = None" and "pkg1 node = PDist q"
    and "A (req_name r) = Inr releases"
    and "descending releases" and "q \<in> set releases"
    and "satisfying_packages (to_satisfy s r) releases = p # rest"
    and "version_key p \<noteq> version_key q"
  shows "add_requirement (Suc k) A nodeps parent r s
           = Some (Inl AttributeError, touch_edges (req_name r) s)"
proof -
  let ?s0 = "touch_edges (req_name r) s"
  have ne: "releases \<noteq> []"
    using assms(7) by (rule satisfying_packages_releases)
  have np: "pkg1_or_pkg node = Inr q"
    using assms(3) by (simp add: pkg1_or_pkg_def)
  have ch: "version_key p < version_key q \<Longrightarrow> \<not> satisfies_all (to_satisfy s r) q"
    using descending_first [OF assms(5) assms(7) assms(6)] by auto
  have "dict_get (req_name r) (nodes ?s0) = Some node"
    using assms(1) by (simp add: touch_edges_def)
  with assms(2) have mc: "mark_for_change (req_name r) p parent r ?s0 = (Inl AttributeError, ?s0)"
    by (simp add: mark_for_change_def)
  have "add_requirement_head A parent r s = (Inl AttributeError, ?s0)"
    using assms(1,4,7,8) ne np ch mc
    by (auto simp: add_requirement_head_def Let_def)
  then show ?thesis by simp
qed

text \<open>
  Witness for C10, in a reachable state: with nothing installed,
  \<open>add_requirement("pycrypto")\<close> marks \<open>pycrypto-2.3\<close> for install; a following
  \<open>add_requirement("pycrypto<=2.1")\<close>, whose candidate is \<open>pycrypto-2.1\<close>, ends with the
  \<open>AttributeError\<close>.
\<close>

theorem add_requirement_on_install_node_witness:
  "add_requirement (Suc 0) example_available False None (parse ''pycrypto'' []) (DepGraph_init [])
     = Some (Inr True, graph_new_pycrypto)
   \<and> add_requirement (Suc 0) example_available False None (parse ''pycrypto'' [(LE, [2, 1])])
       graph_new_pycrypto
     = Some (Inl AttributeError,
         touch_edges (req_name (parse ''pycrypto'' [(LE, [2, 1])])) graph_new_pycrypto)"
proof -
  let ?r = "parse ''pycrypto'' [(LE, [2, 1])]"
  let ?node = "\<lparr>node_name = ''pycrypto'', pkg = None, pkg1 = PDist pycrypto_23\<rparr>"
  have 1: "dict_get (req_name ?r) (nodes graph_new_pycrypto) = Some ?node"
    by (simp add: graph_new_pycrypto_def model_defs)
  have 2: "example_available (req_name ?r) = Inr [pycrypto_23, pycrypto_21]"
    by (simp add: example_defs model_defs)
  have 3: "descending [pycrypto_23, pycrypto_21]"
    by (simp add: descending_def example_defs model_defs)
  have 4: "satisfying_packages (to_satisfy graph_new_pycrypto ?r) [pycrypto_23, pycrypto_21]
      = pycrypto_21 # []"
    by (simp add: graph_new_pycrypto_def example_defs model_defs)
  have 5: "version_key pycrypto_21 \<noteq> version_key pycrypto_23"
    by (simp add: example_defs model_defs)
  have "add_requirement (Suc 0) example_available False None ?r graph_new_pycrypto
     = Some (Inl AttributeError, touch_edges (req_name ?r) graph_new_pycrypto)"
    by (rule add_requirement_on_install_node
        [where A = example_available and r = ?r and node = ?node and q = pycrypto_23
           and releases = "[pycrypto_23, pycrypto_21]" and p = pycrypto_21 and rest = "[]",
         OF 1 _ _ 2 3 _ 4 5]) simp_all
  with add_new_pycrypto show ?thesis by simp
qed

end
